theory Spec2Isabelle
  imports Main "HOL-Library.AList" "HOL-Library.Sublist" "HOL-Library.Char_ord"
    "HOL-Library.List_Lexorder"
begin

section \<open>Python values\<close>

text \<open>
  The collection of \<^verbatim>\<open>src/backend/database.py\<close> stores and inspects dynamically typed
  documents. A value is \<^verbatim>\<open>None\<close>, a bool, an int, a str, a list, or a dict with string
  keys (a JSON object); the insertion order of a dict is the order of its association list.
  Strings are byte lists, compared bytewise, which is the order of the code points. These
  are values, not objects: what depends on one list being held in two places is stated
  on the second model further down, which keeps lists and dicts at addresses.
\<close>

datatype pyval =
    PNone
  | PBool bool
  | PInt int
  | PStr string
  | PList "pyval list"
  | PDict "(string \<times> pyval) list"

text \<open>What the code can raise: each is a branch of the model.\<close>

datatype error =
  TypeError | AttributeError | KeyError | IndexError | ValueError | RecursionError

type_synonym record_t = "(string \<times> pyval) list"

text \<open>\<^verbatim>\<open>hash(x)\<close> succeeds on these values and raises TypeError on a list or a dict.\<close>

fun hashable :: "pyval \<Rightarrow> bool" where
  "hashable (PList _) = False"
| "hashable (PDict _) = False"
| "hashable _ = True"

text \<open>
  \<^verbatim>\<open>a == b\<close>. A bool is the int 0 or 1; lists are equal elementwise; two dicts are equal
  when they have the same number of items and every item of the first is found, with an
  equal value, in the second.
\<close>

fun py_eq :: "pyval \<Rightarrow> pyval \<Rightarrow> bool"
  and py_eq_list :: "pyval list \<Rightarrow> pyval list \<Rightarrow> bool"
  and dict_sub :: "(string \<times> pyval) list \<Rightarrow> (string \<times> pyval) list \<Rightarrow> bool"
  and dict_has :: "string \<Rightarrow> pyval \<Rightarrow> (string \<times> pyval) list \<Rightarrow> bool"
where
  "py_eq PNone PNone = True"
| "py_eq (PBool a) (PBool b) = (a = b)"
| "py_eq (PBool a) (PInt j) = ((if a then 1 else 0) = j)"
| "py_eq (PInt i) (PBool b) = (i = (if b then 1 else 0))"
| "py_eq (PInt i) (PInt j) = (i = j)"
| "py_eq (PStr s) (PStr t) = (s = t)"
| "py_eq (PList xs) (PList ys) = py_eq_list xs ys"
| "py_eq (PDict a) (PDict b) = (length a = length b \<and> dict_sub a b)"
| "py_eq _ _ = False"
| "py_eq_list [] [] = True"
| "py_eq_list (x # xs) (y # ys) = (py_eq x y \<and> py_eq_list xs ys)"
| "py_eq_list _ _ = False"
| "dict_sub [] b = True"
| "dict_sub ((k, v) # a) b = (dict_has k v b \<and> dict_sub a b)"
| "dict_has k v [] = False"
| "dict_has k v ((k', v') # b) = (if k = k' then py_eq v v' else dict_has k v b)"

text \<open>The int a bool or an int stands for in arithmetic and comparison.\<close>

fun as_int :: "pyval \<Rightarrow> int option" where
  "as_int (PBool b) = Some (if b then 1 else 0)"
| "as_int (PInt i) = Some i"
| "as_int _ = None"

text \<open>
  \<^verbatim>\<open>a < b\<close>: numbers by value, strings and lists lexicographically (a list at the first
  index where the elements are not equal, else by length); every other pair of types
  raises TypeError.
\<close>

fun py_lt :: "pyval \<Rightarrow> pyval \<Rightarrow> error + bool"
  and py_lt_list :: "pyval list \<Rightarrow> pyval list \<Rightarrow> error + bool"
where
  "py_lt (PStr s) (PStr t) = Inr (s < t)"
| "py_lt (PList xs) (PList ys) = py_lt_list xs ys"
| "py_lt (PBool a) y = (case as_int y of None \<Rightarrow> Inl TypeError
      | Some j \<Rightarrow> Inr ((if a then 1 else 0) < j))"
| "py_lt (PInt i) y = (case as_int y of None \<Rightarrow> Inl TypeError | Some j \<Rightarrow> Inr (i < j))"
| "py_lt _ _ = Inl TypeError"
| "py_lt_list [] ys = Inr (ys \<noteq> [])"
| "py_lt_list (x # xs) [] = Inr False"
| "py_lt_list (x # xs) (y # ys) = (if py_eq x y then py_lt_list xs ys else py_lt x y)"

text \<open>\<^verbatim>\<open>a > b\<close> on these types is the reflected \<^verbatim>\<open>b < a\<close>, errors included.\<close>

definition py_gt :: "pyval \<Rightarrow> pyval \<Rightarrow> error + bool" where
  "py_gt a b = py_lt b a"

text \<open>
  \<^verbatim>\<open>x in c\<close>: a list compares its elements with \<^verbatim>\<open>==\<close>; a str tests for a substring and
  accepts only a str on the left; a dict hashes \<^verbatim>\<open>x\<close> and looks among its keys; anything
  else is not a container.
\<close>

fun py_in :: "pyval \<Rightarrow> pyval \<Rightarrow> error + bool" where
  "py_in x (PList ys) = Inr (list_ex (\<lambda>y. py_eq y x) ys)"
| "py_in (PStr t) (PStr s) = Inr (sublist t s)"
| "py_in x (PStr s) = Inl TypeError"
| "py_in x (PDict d) = (if hashable x then Inr (list_ex (\<lambda>(k, v). PStr k = x) d)
      else Inl TypeError)"
| "py_in x _ = Inl TypeError"

text \<open>\<^verbatim>\<open>c[k]\<close> for a string \<^verbatim>\<open>k\<close>: only a dict can be indexed by a string.\<close>

fun py_getitem :: "pyval \<Rightarrow> string \<Rightarrow> error + pyval" where
  "py_getitem (PDict d) k = (case map_of d k of None \<Rightarrow> Inl KeyError | Some v \<Rightarrow> Inr v)"
| "py_getitem _ k = Inl TypeError"

text \<open>\<^verbatim>\<open>c.get(k, default)\<close>: only a dict has the method.\<close>

fun py_get :: "pyval \<Rightarrow> string \<Rightarrow> pyval \<Rightarrow> error + pyval" where
  "py_get (PDict d) k dflt = (case map_of d k of None \<Rightarrow> Inr dflt | Some v \<Rightarrow> Inr v)"
| "py_get _ k dflt = Inl AttributeError"

text \<open>\<^verbatim>\<open>c.items()\<close>.\<close>

fun py_items :: "pyval \<Rightarrow> error + (string \<times> pyval) list" where
  "py_items (PDict d) = Inr d"
| "py_items _ = Inl AttributeError"

text \<open>Iterating: a list gives its elements, a str its characters (one byte each, so
  this is Python's iteration on ASCII strings), a dict its keys.\<close>

fun py_iter :: "pyval \<Rightarrow> error + pyval list" where
  "py_iter (PList xs) = Inr xs"
| "py_iter (PStr s) = Inr (map (\<lambda>c. PStr [c]) s)"
| "py_iter (PDict d) = Inr (map (\<lambda>(k, v). PStr k) d)"
| "py_iter _ = Inl TypeError"



text \<open>\<^verbatim>\<open>any(day in doc_days for day in days)\<close>: stops at the first hit, so a later
  element that would raise is never tested.\<close>

fun py_any_in :: "pyval list \<Rightarrow> pyval \<Rightarrow> error + bool" where
  "py_any_in [] c = Inr False"
| "py_any_in (d # ds) c = (case py_in d c of Inl e \<Rightarrow> Inl e
      | Inr True \<Rightarrow> Inr True
      | Inr False \<Rightarrow> py_any_in ds c)"

text \<open>\<^verbatim>\<open>xs.remove(v)\<close> on a list that contains \<^verbatim>\<open>v\<close>: the first equal element goes.\<close>

fun list_remove :: "pyval \<Rightarrow> pyval list \<Rightarrow> pyval list" where
  "list_remove v [] = []"
| "list_remove v (x # xs) = (if py_eq x v then xs else x # list_remove v xs)"






section \<open>The collection\<close>

text \<open>
  \<^verbatim>\<open>data_store\<close>: a dict from identity key to record, in insertion order. Keys are found
  by hash and \<^verbatim>\<open>==\<close>.
\<close>

type_synonym store = "(pyval \<times> record_t) list"

fun store_lookup :: "store \<Rightarrow> pyval \<Rightarrow> record_t option" where
  "store_lookup [] key = None"
| "store_lookup ((k, r) # s) key = (if py_eq k key then Some r else store_lookup s key)"

text \<open>\<^verbatim>\<open>data_store[key] = r\<close>: an existing key keeps its place and its key object.\<close>

fun store_set :: "store \<Rightarrow> pyval \<Rightarrow> record_t \<Rightarrow> store" where
  "store_set [] key r = [(key, r)]"
| "store_set ((k, r0) # s) key r =
     (if py_eq k key then (k, r) # s else (k, r0) # store_set s key r)"

text \<open>
  \<^verbatim>\<open>{"_id": key, **value}\<close>: the entry \<^verbatim>\<open>_id\<close> comes first; a field of the record that is
  itself named \<^verbatim>\<open>_id\<close> overwrites its value.
\<close>

definition with_id :: "pyval \<Rightarrow> record_t \<Rightarrow> record_t" where
  "with_id key val =
     (''_id'', (case map_of val ''_id'' of None \<Rightarrow> key | Some v \<Rightarrow> v))
       # filter (\<lambda>(k, v). k \<noteq> ''_id'') val"

subsection \<open>\<^verbatim>\<open>_matches_query\<close>\<close>

text \<open>One turn of the loop over the clauses: \<open>Inr False\<close> is \<^verbatim>\<open>return False\<close>,
  \<open>Inr True\<close> is \<^verbatim>\<open>continue\<close>.\<close>

definition match_clause :: "record_t \<Rightarrow> string \<Rightarrow> pyval \<Rightarrow> error + bool" where
  "match_clause doc key condition =
    (if key = ''schedule_details.days'' then
       (case py_in (PStr ''$in'') condition of Inl e \<Rightarrow> Inl e
        | Inr False \<Rightarrow> Inr True
        | Inr True \<Rightarrow>
           (case py_get (PDict doc) ''schedule_details'' (PDict []) of Inl e \<Rightarrow> Inl e
            | Inr sd \<Rightarrow>
           (case py_get sd ''days'' (PList []) of Inl e \<Rightarrow> Inl e
            | Inr doc_days \<Rightarrow>
           (case py_getitem condition ''$in'' of Inl e \<Rightarrow> Inl e
            | Inr wanted \<Rightarrow>
           (case py_iter wanted of Inl e \<Rightarrow> Inl e
            | Inr days \<Rightarrow> py_any_in days doc_days)))))
     else if key = ''schedule_details.start_time'' then
       (case py_in (PStr ''$gte'') condition of Inl e \<Rightarrow> Inl e
        | Inr False \<Rightarrow> Inr True
        | Inr True \<Rightarrow>
           (case py_get (PDict doc) ''schedule_details'' (PDict []) of Inl e \<Rightarrow> Inl e
            | Inr sd \<Rightarrow>
           (case py_get sd ''start_time'' (PStr []) of Inl e \<Rightarrow> Inl e
            | Inr doc_time \<Rightarrow>
           (case py_getitem condition ''$gte'' of Inl e \<Rightarrow> Inl e
            | Inr bound \<Rightarrow>
           (case py_lt doc_time bound of Inl e \<Rightarrow> Inl e
            | Inr b \<Rightarrow> Inr (\<not> b))))))
     else if key = ''schedule_details.end_time'' then
       (case py_in (PStr ''$lte'') condition of Inl e \<Rightarrow> Inl e
        | Inr False \<Rightarrow> Inr True
        | Inr True \<Rightarrow>
           (case py_get (PDict doc) ''schedule_details'' (PDict []) of Inl e \<Rightarrow> Inl e
            | Inr sd \<Rightarrow>
           (case py_get sd ''end_time'' (PStr []) of Inl e \<Rightarrow> Inl e
            | Inr doc_time \<Rightarrow>
           (case py_getitem condition ''$lte'' of Inl e \<Rightarrow> Inl e
            | Inr bound \<Rightarrow>
           (case py_gt doc_time bound of Inl e \<Rightarrow> Inl e
            | Inr b \<Rightarrow> Inr (\<not> b))))))
     else if key = ''difficulty_level'' then
       (case (case condition of PDict c \<Rightarrow> map_of c ''$exists'' | _ \<Rightarrow> None) of
          Some wanted \<Rightarrow>
            (let field_exists =
               (case map_of doc key of None \<Rightarrow> False | Some v \<Rightarrow> v \<noteq> PNone)
             in Inr (py_eq wanted (PBool field_exists)))
        | None \<Rightarrow>
            Inr (py_eq (case map_of doc ''difficulty_level'' of None \<Rightarrow> PNone | Some v \<Rightarrow> v)
                   condition))
     else Inr True)"

fun matches_clauses :: "record_t \<Rightarrow> (string \<times> pyval) list \<Rightarrow> error + bool" where
  "matches_clauses doc [] = Inr True"
| "matches_clauses doc ((key, condition) # rest) =
     (case match_clause doc key condition of Inl e \<Rightarrow> Inl e
      | Inr False \<Rightarrow> Inr False
      | Inr True \<Rightarrow> matches_clauses doc rest)"

definition matches_query :: "record_t \<Rightarrow> pyval \<Rightarrow> error + bool" where
  "matches_query doc query =
     (case py_items query of Inl e \<Rightarrow> Inl e | Inr clauses \<Rightarrow> matches_clauses doc clauses)"

subsection \<open>\<^verbatim>\<open>find\<close>, \<^verbatim>\<open>find_one\<close>, \<^verbatim>\<open>count_documents\<close>\<close>

fun find_loop :: "store \<Rightarrow> pyval \<Rightarrow> error + record_t list" where
  "find_loop [] query = Inr []"
| "find_loop ((key, val) # s) query =
     (case matches_query (with_id key val) query of Inl e \<Rightarrow> Inl e
      | Inr hit \<Rightarrow>
         (case find_loop s query of Inl e \<Rightarrow> Inl e
          | Inr results \<Rightarrow> Inr (if hit then with_id key val # results else results)))"

definition find_c :: "store \<Rightarrow> pyval \<Rightarrow> error + record_t list" where
  "find_c s query =
     (if query = PNone \<or> py_eq query (PDict []) then Inr (map (\<lambda>(key, val). with_id key val) s)
      else find_loop s query)"

definition find_one :: "store \<Rightarrow> pyval \<Rightarrow> error + record_t option" where
  "find_one s query =
     (case py_in (PStr ''_id'') query of Inl e \<Rightarrow> Inl e
      | Inr False \<Rightarrow> Inr None
      | Inr True \<Rightarrow>
         (case py_getitem query ''_id'' of Inl e \<Rightarrow> Inl e
          | Inr key \<Rightarrow>
             if \<not> hashable key then Inl TypeError
             else (case store_lookup s key of None \<Rightarrow> Inr None
                   | Some r \<Rightarrow> Inr (Some (with_id key r)))))"

definition count_documents :: "store \<Rightarrow> pyval \<Rightarrow> nat" where
  "count_documents s query = length s"

subsection \<open>\<^verbatim>\<open>insert_one\<close>\<close>

text \<open>
  The document is indexed by \<^verbatim>\<open>"_id"\<close> first (KeyError when it has none), copied without
  that entry, and stored under the key, which has to hash. Nothing is stored when it
  raises; otherwise the call returns \<^verbatim>\<open>True\<close> and the result is the store after it.
\<close>

definition insert_one :: "store \<Rightarrow> pyval \<Rightarrow> error + store" where
  "insert_one s document =
     (case py_getitem document ''_id'' of Inl e \<Rightarrow> Inl e
      | Inr doc_id \<Rightarrow>
         (case py_items document of Inl e \<Rightarrow> Inl e
          | Inr items \<Rightarrow>
             (let doc_data = filter (\<lambda>(k, v). k \<noteq> ''_id'') items
              in if \<not> hashable doc_id then Inl TypeError
                 else Inr (store_set s doc_id doc_data))))"

subsection \<open>\<^verbatim>\<open>update_one\<close>\<close>

text \<open>
  The loops of \<^verbatim>\<open>update_one\<close> change the record in place, so an exception leaves the
  changes made before it: each loop returns the exception, if any, and the record.
\<close>

definition push_field :: "string \<Rightarrow> pyval \<Rightarrow> record_t \<Rightarrow> error option \<times> record_t" where
  "push_field field val r =
     (let r1 = (if map_of r field = None then AList.update field (PList []) r else r)
      in case map_of r1 field of
           Some (PList xs) \<Rightarrow> (None, AList.update field (PList (xs @ [val])) r1)
         | _ \<Rightarrow> (Some AttributeError, r1))"

fun push_loop :: "(string \<times> pyval) list \<Rightarrow> record_t \<Rightarrow> error option \<times> record_t" where
  "push_loop [] r = (None, r)"
| "push_loop ((field, val) # rest) r =
     (case push_field field val r of
        (Some e, r1) \<Rightarrow> (Some e, r1)
      | (None, r1) \<Rightarrow> push_loop rest r1)"

definition pull_field :: "string \<Rightarrow> pyval \<Rightarrow> record_t \<Rightarrow> error option \<times> record_t" where
  "pull_field field val r =
     (case map_of r field of
        None \<Rightarrow> (None, r)
      | Some c \<Rightarrow>
         (case py_in val c of
            Inl e \<Rightarrow> (Some e, r)
          | Inr False \<Rightarrow> (None, r)
          | Inr True \<Rightarrow>
             (case c of
                PList xs \<Rightarrow> (None, AList.update field (PList (list_remove val xs)) r)
              | _ \<Rightarrow> (Some AttributeError, r))))"

fun pull_loop :: "(string \<times> pyval) list \<Rightarrow> record_t \<Rightarrow> error option \<times> record_t" where
  "pull_loop [] r = (None, r)"
| "pull_loop ((field, val) # rest) r =
     (case pull_field field val r of
        (Some e, r1) \<Rightarrow> (Some e, r1)
      | (None, r1) \<Rightarrow> pull_loop rest r1)"

text \<open>\<^verbatim>\<open>if op in update: for field, value in update[op].items(): ...\<close>\<close>

definition apply_op ::
  "string \<Rightarrow> ((string \<times> pyval) list \<Rightarrow> record_t \<Rightarrow> error option \<times> record_t) \<Rightarrow>
     pyval \<Rightarrow> record_t \<Rightarrow> error option \<times> record_t" where
  "apply_op opname loop update r =
     (case py_in (PStr opname) update of Inl e \<Rightarrow> (Some e, r)
      | Inr False \<Rightarrow> (None, r)
      | Inr True \<Rightarrow>
         (case py_getitem update opname of Inl e \<Rightarrow> (Some e, r)
          | Inr arg \<Rightarrow>
             (case py_items arg of Inl e \<Rightarrow> (Some e, r)
              | Inr items \<Rightarrow> loop items r)))"

definition apply_update :: "pyval \<Rightarrow> record_t \<Rightarrow> error option \<times> record_t" where
  "apply_update update r =
     (case apply_op ''$push'' push_loop update r of
        (Some e, r1) \<Rightarrow> (Some e, r1)
      | (None, r1) \<Rightarrow> apply_op ''$pull'' pull_loop update r1)"

text \<open>The object \<^verbatim>\<open>update_one\<close> returns.\<close>

record obj =
  modified_count :: nat

definition update_one :: "store \<Rightarrow> pyval \<Rightarrow> pyval \<Rightarrow> (error + obj) \<times> store" where
  "update_one s query update =
     (case py_in (PStr ''_id'') query of Inl e \<Rightarrow> (Inl e, s)
      | Inr False \<Rightarrow> (Inr \<lparr>modified_count = 0\<rparr>, s)
      | Inr True \<Rightarrow>
         (case py_getitem query ''_id'' of Inl e \<Rightarrow> (Inl e, s)
          | Inr key \<Rightarrow>
             if \<not> hashable key then (Inl TypeError, s)
             else (case store_lookup s key of
                     None \<Rightarrow> (Inr \<lparr>modified_count = 0\<rparr>, s)
                   | Some r \<Rightarrow>
                      (case apply_update update r of
                         (Some e, r1) \<Rightarrow> (Inl e, store_set s key r1)
                       | (None, r1) \<Rightarrow> (Inr \<lparr>modified_count = 1\<rparr>, store_set s key r1)))))"

subsection \<open>\<^verbatim>\<open>aggregate\<close>\<close>



section \<open>Seeding\<close>

text \<open>
  \<^verbatim>\<open>initial_activities\<close> and \<^verbatim>\<open>initial_teachers\<close>, as the module writes them. The
  password hasher is the Argon2 library, outside the module: \<open>hash_password\<close> is a
  parameter, and its results are opaque strings.
\<close>

definition initial_activities :: "(string \<times> record_t) list" where
  "initial_activities =
    [(''Chess Club'',
      [(''description'', PStr ''Learn strategies and compete in chess tournaments''),
       (''schedule'', PStr ''Mondays and Fridays, 3:15 PM - 4:45 PM''),
       (''schedule_details'', PDict
          [(''days'', PList [PStr ''Monday'', PStr ''Friday'']),
           (''start_time'', PStr ''15:15''), (''end_time'', PStr ''16:45'')]),
       (''max_participants'', PInt 12),
       (''participants'', PList [PStr ''michael@mergington.edu'', PStr ''daniel@mergington.edu'']),
       (''difficulty_level'', PStr ''Beginner'')]),
     (''Programming Class'',
      [(''description'', PStr ''Learn programming fundamentals and build software projects''),
       (''schedule'', PStr ''Tuesdays and Thursdays, 7:00 AM - 8:00 AM''),
       (''schedule_details'', PDict
          [(''days'', PList [PStr ''Tuesday'', PStr ''Thursday'']),
           (''start_time'', PStr ''07:00''), (''end_time'', PStr ''08:00'')]),
       (''max_participants'', PInt 20),
       (''participants'', PList [PStr ''emma@mergington.edu'', PStr ''sophia@mergington.edu'']),
       (''difficulty_level'', PStr ''Intermediate'')]),
     (''Morning Fitness'',
      [(''description'', PStr ''Early morning physical training and exercises''),
       (''schedule'', PStr ''Mondays, Wednesdays, Fridays, 6:30 AM - 7:45 AM''),
       (''schedule_details'', PDict
          [(''days'', PList [PStr ''Monday'', PStr ''Wednesday'', PStr ''Friday'']),
           (''start_time'', PStr ''06:30''), (''end_time'', PStr ''07:45'')]),
       (''max_participants'', PInt 30),
       (''participants'', PList [PStr ''john@mergington.edu'', PStr ''olivia@mergington.edu''])]),
     (''Soccer Team'',
      [(''description'', PStr ''Join the school soccer team and compete in matches''),
       (''schedule'', PStr ''Tuesdays and Thursdays, 3:30 PM - 5:30 PM''),
       (''schedule_details'', PDict
          [(''days'', PList [PStr ''Tuesday'', PStr ''Thursday'']),
           (''start_time'', PStr ''15:30''), (''end_time'', PStr ''17:30'')]),
       (''max_participants'', PInt 22),
       (''participants'', PList [PStr ''liam@mergington.edu'', PStr ''noah@mergington.edu''])]),
     (''Basketball Team'',
      [(''description'', PStr ''Practice and compete in basketball tournaments''),
       (''schedule'', PStr ''Wednesdays and Fridays, 3:15 PM - 5:00 PM''),
       (''schedule_details'', PDict
          [(''days'', PList [PStr ''Wednesday'', PStr ''Friday'']),
           (''start_time'', PStr ''15:15''), (''end_time'', PStr ''17:00'')]),
       (''max_participants'', PInt 15),
       (''participants'', PList [PStr ''ava@mergington.edu'', PStr ''mia@mergington.edu''])]),
     (''Art Club'',
      [(''description'', PStr ''Explore various art techniques and create masterpieces''),
       (''schedule'', PStr ''Thursdays, 3:15 PM - 5:00 PM''),
       (''schedule_details'', PDict
          [(''days'', PList [PStr ''Thursday'']),
           (''start_time'', PStr ''15:15''), (''end_time'', PStr ''17:00'')]),
       (''max_participants'', PInt 15),
       (''participants'', PList [PStr ''amelia@mergington.edu'', PStr ''harper@mergington.edu'']),
       (''difficulty_level'', PStr ''Beginner'')]),
     (''Drama Club'',
      [(''description'', PStr ''Act, direct, and produce plays and performances''),
       (''schedule'', PStr ''Mondays and Wednesdays, 3:30 PM - 5:30 PM''),
       (''schedule_details'', PDict
          [(''days'', PList [PStr ''Monday'', PStr ''Wednesday'']),
           (''start_time'', PStr ''15:30''), (''end_time'', PStr ''17:30'')]),
       (''max_participants'', PInt 20),
       (''participants'', PList [PStr ''ella@mergington.edu'', PStr ''scarlett@mergington.edu''])]),
     (''Math Club'',
      [(''description'', PStr ''Solve challenging problems and prepare for math competitions''),
       (''schedule'', PStr ''Tuesdays, 7:15 AM - 8:00 AM''),
       (''schedule_details'', PDict
          [(''days'', PList [PStr ''Tuesday'']),
           (''start_time'', PStr ''07:15''), (''end_time'', PStr ''08:00'')]),
       (''max_participants'', PInt 10),
       (''participants'', PList [PStr ''james@mergington.edu'', PStr ''benjamin@mergington.edu'']),
       (''difficulty_level'', PStr ''Advanced'')]),
     (''Debate Team'',
      [(''description'', PStr ''Develop public speaking and argumentation skills''),
       (''schedule'', PStr ''Fridays, 3:30 PM - 5:30 PM''),
       (''schedule_details'', PDict
          [(''days'', PList [PStr ''Friday'']),
           (''start_time'', PStr ''15:30''), (''end_time'', PStr ''17:30'')]),
       (''max_participants'', PInt 12),
       (''participants'', PList
          [PStr ''charlotte@mergington.edu'', PStr ''amelia@mergington.edu'']),
       (''difficulty_level'', PStr ''Intermediate'')]),
     (''Weekend Robotics Workshop'',
      [(''description'', PStr ''Build and program robots in our state-of-the-art workshop''),
       (''schedule'', PStr ''Saturdays, 10:00 AM - 2:00 PM''),
       (''schedule_details'', PDict
          [(''days'', PList [PStr ''Saturday'']),
           (''start_time'', PStr ''10:00''), (''end_time'', PStr ''14:00'')]),
       (''max_participants'', PInt 15),
       (''participants'', PList [PStr ''ethan@mergington.edu'', PStr ''oliver@mergington.edu'']),
       (''difficulty_level'', PStr ''Advanced'')]),
     (''Science Olympiad'',
      [(''description'', PStr
         (''Weekend science competition preparation for regional and state events'')),
       (''schedule'', PStr ''Saturdays, 1:00 PM - 4:00 PM''),
       (''schedule_details'', PDict
          [(''days'', PList [PStr ''Saturday'']),
           (''start_time'', PStr ''13:00''), (''end_time'', PStr ''16:00'')]),
       (''max_participants'', PInt 18),
       (''participants'', PList
          [PStr ''isabella@mergington.edu'', PStr ''lucas@mergington.edu''])]),
     (''Sunday Chess Tournament'',
      [(''description'', PStr ''Weekly tournament for serious chess players with rankings''),
       (''schedule'', PStr ''Sundays, 2:00 PM - 5:00 PM''),
       (''schedule_details'', PDict
          [(''days'', PList [PStr ''Sunday'']),
           (''start_time'', PStr ''14:00''), (''end_time'', PStr ''17:00'')]),
       (''max_participants'', PInt 16),
       (''participants'', PList [PStr ''william@mergington.edu'', PStr ''jacob@mergington.edu'']),
       (''difficulty_level'', PStr ''Advanced'')]),
     (''Manga Maniacs'',
      [(''description'', PStr
         (''Dive into epic adventures, discover incredible powers, and connect '' @
          ''with unforgettable heroes! Join fellow manga enthusiasts as we explore '' @
          ''everything from shonen battles to slice-of-life stories. Whether '' @
          ''you're rooting for Naruto, One Piece, or love discovering hidden gems, '' @
          ''this is your otaku home base!'')),
       (''schedule'', PStr ''Tuesdays, 7:00 PM - 8:00 PM''),
       (''schedule_details'', PDict
          [(''days'', PList [PStr ''Tuesday'']),
           (''start_time'', PStr ''19:00''), (''end_time'', PStr ''20:00'')]),
       (''max_participants'', PInt 15),
       (''participants'', PList [])])]"

definition initial_teachers :: "(string \<Rightarrow> string) \<Rightarrow> pyval list" where
  "initial_teachers hash_password =
    [PDict [(''username'', PStr ''mrodriguez''),
            (''display_name'', PStr ''Ms. Rodriguez''),
            (''password'', PStr (hash_password ''art123'')), (''role'', PStr ''teacher'')],
     PDict [(''username'', PStr ''mchen''),
             (''display_name'', PStr ''Mr. Chen''),
             (''password'', PStr (hash_password ''chess456'')), (''role'', PStr ''teacher'')],
     PDict [(''username'', PStr ''principal''),
             (''display_name'', PStr ''Principal Martinez''),
             (''password'', PStr (hash_password ''admin789'')), (''role'', PStr ''admin'')]]"

text \<open>The two module-level stores, each behind its own collection.\<close>

record db =
  activities_db :: store
  teachers_db :: store

text \<open>\<^verbatim>\<open>for name, details in initial_activities.items():
    activities_collection.insert_one({"_id": name, **details})\<close>\<close>

fun insert_activities :: "store \<Rightarrow> (string \<times> record_t) list \<Rightarrow> error + store" where
  "insert_activities s [] = Inr s"
| "insert_activities s ((name, details) # rest) =
     (case insert_one s (PDict (with_id (PStr name) details)) of Inl e \<Rightarrow> Inl e
      | Inr s' \<Rightarrow> insert_activities s' rest)"

text \<open>\<^verbatim>\<open>for teacher in initial_teachers:
    teachers_collection.insert_one({"_id": teacher["username"], **teacher})\<close>\<close>

fun insert_teachers :: "store \<Rightarrow> pyval list \<Rightarrow> error + store" where
  "insert_teachers s [] = Inr s"
| "insert_teachers s (teacher # rest) =
     (case py_getitem teacher ''username'' of Inl e \<Rightarrow> Inl e
      | Inr username \<Rightarrow>
         (case py_items teacher of Inl e \<Rightarrow> Inl e
          | Inr items \<Rightarrow>
             (case insert_one s (PDict (with_id username items)) of Inl e \<Rightarrow> Inl e
              | Inr s' \<Rightarrow> insert_teachers s' rest)))"

definition init_database :: "(string \<Rightarrow> string) \<Rightarrow> db \<Rightarrow> error + db" where
  "init_database hash_password st =
     (case (if count_documents (activities_db st) (PDict []) = 0
            then insert_activities (activities_db st) initial_activities
            else Inr (activities_db st)) of
        Inl e \<Rightarrow> Inl e
      | Inr a \<Rightarrow>
         (case (if count_documents (teachers_db st) (PDict []) = 0
                then insert_teachers (teachers_db st) (initial_teachers hash_password)
                else Inr (teachers_db st)) of
            Inl e \<Rightarrow> Inl e
          | Inr t \<Rightarrow> Inr \<lparr>activities_db = a, teachers_db = t\<rparr>))"

section \<open>Objects that are shared\<close>

text \<open>
  \<^verbatim>\<open>insert_one\<close> copies a document one level deep and \<^verbatim>\<open>$push\<close> and \<^verbatim>\<open>$pull\<close> change a
  list where it is, so a list that the caller put into two documents is one object
  under two records. For what \<^verbatim>\<open>update_one\<close> leaves alone the values above are not
  enough: this second model of \<^verbatim>\<open>insert_one\<close> and \<^verbatim>\<open>update_one\<close> keeps every list and
  every dict that comes from the caller as an object at an address. The dict of a
  record is made afresh by \<^verbatim>\<open>insert_one\<close> and handed to nobody, so it stays with its key.
\<close>

type_synonym addr = nat

datatype hval = HNone | HBool bool | HInt int | HStr string | HRef addr

datatype hobj = HList "hval list" | HDict "(string \<times> hval) list"

text \<open>The object at address \<open>a\<close> is \<open>h ! a\<close>; a new object gets the address \<open>length h\<close>.\<close>

type_synonym heap = "hobj list"

type_synonym hrecord = "(string \<times> hval) list"

type_synonym hstore = "(hval \<times> hrecord) list"

text \<open>An address beyond the heap names no object; no Python value is such a reference.\<close>

definition h_obj :: "heap \<Rightarrow> addr \<Rightarrow> hobj option" where
  "h_obj h a = (if a < length h then Some (h ! a) else None)"

fun h_hashable :: "hval \<Rightarrow> bool" where
  "h_hashable (HRef a) = False"
| "h_hashable _ = True"

fun scalar_eq :: "hval \<Rightarrow> hval \<Rightarrow> bool" where
  "scalar_eq HNone HNone = True"
| "scalar_eq (HBool a) (HBool b) = (a = b)"
| "scalar_eq (HBool a) (HInt j) = ((if a then 1 else 0) = j)"
| "scalar_eq (HInt i) (HBool b) = (i = (if b then 1 else 0))"
| "scalar_eq (HInt i) (HInt j) = (i = j)"
| "scalar_eq (HStr s) (HStr t) = (s = t)"
| "scalar_eq _ _ = False"

text \<open>
  How the interpreter compares two elements: an object is equal to itself without a
  look inside, anything else is compared with \<^verbatim>\<open>==\<close>.
\<close>

definition same_or ::
  "(hval \<Rightarrow> hval \<Rightarrow> error + bool) \<Rightarrow> hval \<Rightarrow> hval \<Rightarrow> error + bool" where
  "same_or eq x y = (if x = y then Inr True else eq x y)"

text \<open>Two lists of one length, element by element, up to the first difference.\<close>

fun eq_list_by ::
  "(hval \<Rightarrow> hval \<Rightarrow> error + bool) \<Rightarrow> hval list \<Rightarrow> hval list \<Rightarrow> error + bool" where
  "eq_list_by eq [] ys = Inr (ys = [])"
| "eq_list_by eq (x # xs) [] = Inr False"
| "eq_list_by eq (x # xs) (y # ys) =
     (case same_or eq x y of
        Inl e \<Rightarrow> Inl e
      | Inr False \<Rightarrow> Inr False
      | Inr True \<Rightarrow> eq_list_by eq xs ys)"

text \<open>Two dicts of one size: every item of the first is looked up in the second.\<close>

fun dict_sub_by ::
  "(hval \<Rightarrow> hval \<Rightarrow> error + bool) \<Rightarrow> (string \<times> hval) list \<Rightarrow> (string \<times> hval) list \<Rightarrow>
     error + bool" where
  "dict_sub_by eq [] dy = Inr True"
| "dict_sub_by eq ((k, v) # dx) dy =
     (case map_of dy k of
        None \<Rightarrow> Inr False
      | Some w \<Rightarrow>
         (case same_or eq v w of
            Inl e \<Rightarrow> Inl e
          | Inr False \<Rightarrow> Inr False
          | Inr True \<Rightarrow> dict_sub_by eq dx dy))"

text \<open>
  \<^verbatim>\<open>a == b\<close> through the heap. Every level of nesting uses up one level of the recursion
  limit \<open>depth\<close>; RecursionError is raised when none is left (two lists that each hold
  themselves).
\<close>

definition eq_objects ::
  "(hval \<Rightarrow> hval \<Rightarrow> error + bool) \<Rightarrow> hobj option \<Rightarrow> hobj option \<Rightarrow> error + bool" where
  "eq_objects eq oa ob =
     (case (oa, ob) of
        (Some (HList xs), Some (HList ys)) \<Rightarrow>
          if length xs \<noteq> length ys then Inr False else eq_list_by eq xs ys
      | (Some (HDict dx), Some (HDict dy)) \<Rightarrow>
          if length dx \<noteq> length dy then Inr False else dict_sub_by eq dx dy
      | _ \<Rightarrow> Inr False)"

primrec h_eq :: "nat \<Rightarrow> heap \<Rightarrow> hval \<Rightarrow> hval \<Rightarrow> error + bool" where
  "h_eq 0 h x y =
     (case (x, y) of
        (HRef a, HRef b) \<Rightarrow> Inl RecursionError
      | _ \<Rightarrow> Inr (scalar_eq x y))"
| "h_eq (Suc d) h x y =
     (case (x, y) of
        (HRef a, HRef b) \<Rightarrow> eq_objects (h_eq d h) (h_obj h a) (h_obj h b)
      | _ \<Rightarrow> Inr (scalar_eq x y))"

text \<open>\<^verbatim>\<open>x in xs\<close> for a list: the first element that is \<^verbatim>\<open>x\<close> or equals it ends the search.\<close>

fun h_in_list :: "nat \<Rightarrow> heap \<Rightarrow> hval \<Rightarrow> hval list \<Rightarrow> error + bool" where
  "h_in_list depth h x [] = Inr False"
| "h_in_list depth h x (y # ys) =
     (case same_or (h_eq depth h) y x of
        Inl e \<Rightarrow> Inl e
      | Inr True \<Rightarrow> Inr True
      | Inr False \<Rightarrow> h_in_list depth h x ys)"

text \<open>\<^verbatim>\<open>x in c\<close>.\<close>

definition h_in :: "nat \<Rightarrow> heap \<Rightarrow> hval \<Rightarrow> hval \<Rightarrow> error + bool" where
  "h_in depth h x c =
     (case c of
        HRef a \<Rightarrow>
          (case h_obj h a of
             Some (HList ys) \<Rightarrow> h_in_list depth h x ys
           | Some (HDict d) \<Rightarrow>
               if h_hashable x then Inr (list_ex (\<lambda>(k, v). HStr k = x) d)
               else Inl TypeError
           | None \<Rightarrow> Inl TypeError)
      | HStr s \<Rightarrow> (case x of HStr t \<Rightarrow> Inr (sublist t s) | _ \<Rightarrow> Inl TypeError)
      | _ \<Rightarrow> Inl TypeError)"

text \<open>\<^verbatim>\<open>c[k]\<close> and \<^verbatim>\<open>c.items()\<close> for a string \<^verbatim>\<open>k\<close>.\<close>

fun h_getitem :: "heap \<Rightarrow> hval \<Rightarrow> string \<Rightarrow> error + hval" where
  "h_getitem h (HRef a) k =
     (case h_obj h a of
        Some (HDict d) \<Rightarrow> (case map_of d k of None \<Rightarrow> Inl KeyError | Some v \<Rightarrow> Inr v)
      | _ \<Rightarrow> Inl TypeError)"
| "h_getitem h c k = Inl TypeError"

fun h_items :: "heap \<Rightarrow> hval \<Rightarrow> error + (string \<times> hval) list" where
  "h_items h (HRef a) =
     (case h_obj h a of Some (HDict d) \<Rightarrow> Inr d | _ \<Rightarrow> Inl AttributeError)"
| "h_items h c = Inl AttributeError"

text \<open>\<^verbatim>\<open>xs.remove(v)\<close>: the first element that is \<^verbatim>\<open>v\<close> or equals it goes; ValueError when
  there is none.\<close>

fun h_remove :: "nat \<Rightarrow> heap \<Rightarrow> hval \<Rightarrow> hval list \<Rightarrow> error + hval list" where
  "h_remove depth h v [] = Inl ValueError"
| "h_remove depth h v (x # xs) =
     (case same_or (h_eq depth h) x v of
        Inl e \<Rightarrow> Inl e
      | Inr True \<Rightarrow> Inr xs
      | Inr False \<Rightarrow>
         (case h_remove depth h v xs of Inl e \<Rightarrow> Inl e | Inr xs' \<Rightarrow> Inr (x # xs')))"

text \<open>The store: a key is found by hash and \<^verbatim>\<open>==\<close>, and keys are not references.\<close>

fun store_lookup_h :: "hstore \<Rightarrow> hval \<Rightarrow> hrecord option" where
  "store_lookup_h [] key = None"
| "store_lookup_h ((k, r) # s) key =
     (if scalar_eq k key then Some r else store_lookup_h s key)"

fun store_set_h :: "hstore \<Rightarrow> hval \<Rightarrow> hrecord \<Rightarrow> hstore" where
  "store_set_h [] key r = [(key, r)]"
| "store_set_h ((k, r0) # s) key r =
     (if scalar_eq k key then (k, r) # s else (k, r0) # store_set_h s key r)"

text \<open>
  \<^verbatim>\<open>insert_one\<close>: the new dict \<^verbatim>\<open>doc_data\<close> holds the document's own values, so its lists
  are the caller's objects. The heap is as before.
\<close>

definition insert_one_h :: "heap \<Rightarrow> hstore \<Rightarrow> hval \<Rightarrow> error + hstore" where
  "insert_one_h h s document =
     (case h_getitem h document ''_id'' of Inl e \<Rightarrow> Inl e
      | Inr doc_id \<Rightarrow>
         (case h_items h document of Inl e \<Rightarrow> Inl e
          | Inr items \<Rightarrow>
             (let doc_data = filter (\<lambda>(k, v). k \<noteq> ''_id'') items
              in if \<not> h_hashable doc_id then Inl TypeError
                 else Inr (store_set_h s doc_id doc_data))))"

text \<open>
  One turn of the \<^verbatim>\<open>$push\<close> loop: an absent field is bound to a new empty list, then
  the list the field holds is appended to, where it is.
\<close>

definition push_field_h ::
  "string \<Rightarrow> hval \<Rightarrow> hrecord \<times> heap \<Rightarrow> error option \<times> hrecord \<times> heap" where
  "push_field_h field val rh =
     (case rh of (r, h) \<Rightarrow>
        (let (r1, h1) = (if map_of r field = None
                         then (AList.update field (HRef (length h)) r, h @ [HList []])
                         else (r, h))
         in case map_of r1 field of
              Some (HRef a) \<Rightarrow>
                (case h_obj h1 a of
                   Some (HList xs) \<Rightarrow> (None, r1, h1[a := HList (xs @ [val])])
                 | _ \<Rightarrow> (Some AttributeError, r1, h1))
            | _ \<Rightarrow> (Some AttributeError, r1, h1)))"

fun push_loop_h ::
  "(string \<times> hval) list \<Rightarrow> hrecord \<times> heap \<Rightarrow> error option \<times> hrecord \<times> heap" where
  "push_loop_h [] rh = (None, rh)"
| "push_loop_h ((field, val) # rest) rh =
     (case push_field_h field val rh of
        (Some e, rh1) \<Rightarrow> (Some e, rh1)
      | (None, rh1) \<Rightarrow> push_loop_h rest rh1)"

text \<open>One turn of the \<^verbatim>\<open>$pull\<close> loop.\<close>

definition pull_field_h ::
  "nat \<Rightarrow> string \<Rightarrow> hval \<Rightarrow> hrecord \<times> heap \<Rightarrow> error option \<times> hrecord \<times> heap" where
  "pull_field_h depth field val rh =
     (case rh of (r, h) \<Rightarrow>
        (case map_of r field of
           None \<Rightarrow> (None, r, h)
         | Some c \<Rightarrow>
            (case h_in depth h val c of
               Inl e \<Rightarrow> (Some e, r, h)
             | Inr False \<Rightarrow> (None, r, h)
             | Inr True \<Rightarrow>
                (case c of
                   HRef a \<Rightarrow>
                     (case h_obj h a of
                        Some (HList xs) \<Rightarrow>
                          (case h_remove depth h val xs of
                             Inl e \<Rightarrow> (Some e, r, h)
                           | Inr xs' \<Rightarrow> (None, r, h[a := HList xs']))
                      | _ \<Rightarrow> (Some AttributeError, r, h))
                 | _ \<Rightarrow> (Some AttributeError, r, h)))))"

fun pull_loop_h ::
  "nat \<Rightarrow> (string \<times> hval) list \<Rightarrow> hrecord \<times> heap \<Rightarrow> error option \<times> hrecord \<times> heap" where
  "pull_loop_h depth [] rh = (None, rh)"
| "pull_loop_h depth ((field, val) # rest) rh =
     (case pull_field_h depth field val rh of
        (Some e, rh1) \<Rightarrow> (Some e, rh1)
      | (None, rh1) \<Rightarrow> pull_loop_h depth rest rh1)"

text \<open>\<^verbatim>\<open>if op in update: for field, value in update[op].items(): ...\<close>\<close>

definition apply_op_h ::
  "nat \<Rightarrow> string \<Rightarrow>
     ((string \<times> hval) list \<Rightarrow> hrecord \<times> heap \<Rightarrow> error option \<times> hrecord \<times> heap) \<Rightarrow>
     hval \<Rightarrow> hrecord \<times> heap \<Rightarrow> error option \<times> hrecord \<times> heap" where
  "apply_op_h depth opname loop update rh =
     (case h_in depth (snd rh) (HStr opname) update of Inl e \<Rightarrow> (Some e, rh)
      | Inr False \<Rightarrow> (None, rh)
      | Inr True \<Rightarrow>
         (case h_getitem (snd rh) update opname of Inl e \<Rightarrow> (Some e, rh)
          | Inr arg \<Rightarrow>
             (case h_items (snd rh) arg of Inl e \<Rightarrow> (Some e, rh)
              | Inr items \<Rightarrow> loop items rh)))"

definition apply_update_h ::
  "nat \<Rightarrow> hval \<Rightarrow> hrecord \<times> heap \<Rightarrow> error option \<times> hrecord \<times> heap" where
  "apply_update_h depth update rh =
     (case apply_op_h depth ''$push'' push_loop_h update rh of
        (Some e, rh1) \<Rightarrow> (Some e, rh1)
      | (None, rh1) \<Rightarrow> apply_op_h depth ''$pull'' (pull_loop_h depth) update rh1)"

definition update_one_h ::
  "nat \<Rightarrow> hstore \<times> heap \<Rightarrow> hval \<Rightarrow> hval \<Rightarrow> (error + obj) \<times> hstore \<times> heap" where
  "update_one_h depth sh query update =
     (case sh of (s, h) \<Rightarrow>
        (case h_in depth h (HStr ''_id'') query of Inl e \<Rightarrow> (Inl e, s, h)
         | Inr False \<Rightarrow> (Inr \<lparr>modified_count = 0\<rparr>, s, h)
         | Inr True \<Rightarrow>
            (case h_getitem h query ''_id'' of Inl e \<Rightarrow> (Inl e, s, h)
             | Inr key \<Rightarrow>
                if \<not> h_hashable key then (Inl TypeError, s, h)
                else (case store_lookup_h s key of
                        None \<Rightarrow> (Inr \<lparr>modified_count = 0\<rparr>, s, h)
                      | Some r \<Rightarrow>
                         (case apply_update_h depth update (r, h) of
                            (Some e, r1, h1) \<Rightarrow> (Inl e, store_set_h s key r1, h1)
                          | (None, r1, h1) \<Rightarrow>
                              (Inr \<lparr>modified_count = 1\<rparr>, store_set_h s key r1, h1))))))"

text \<open>
  What Python shows of a value, down to \<open>n\<close> levels of nesting (\<^verbatim>\<open>...\<close> below that): two
  heaps hold the same value at \<open>v\<close> when they show the same at every depth.
\<close>

fun observe :: "nat \<Rightarrow> heap \<Rightarrow> hval \<Rightarrow> pyval" where
  "observe n h HNone = PNone"
| "observe n h (HBool b) = PBool b"
| "observe n h (HInt i) = PInt i"
| "observe n h (HStr s) = PStr s"
| "observe 0 h (HRef a) = PStr ''...''"
| "observe (Suc n) h (HRef a) =
     (case h_obj h a of
        None \<Rightarrow> PNone
      | Some (HList xs) \<Rightarrow> PList (map (observe n h) xs)
      | Some (HDict d) \<Rightarrow> PDict (map (\<lambda>(k, v). (k, observe n h v)) d))"

text \<open>The values an object holds, and the objects that can be reached from a value.\<close>

fun obj_vals :: "hobj \<Rightarrow> hval list" where
  "obj_vals (HList xs) = xs"
| "obj_vals (HDict d) = map snd d"

inductive_set reach :: "heap \<Rightarrow> hval \<Rightarrow> addr set" for h :: heap and v :: hval where
  root: "v = HRef a \<Longrightarrow> a \<in> reach h v"
| step: "a \<in> reach h v \<Longrightarrow> h_obj h a = Some ob \<Longrightarrow> HRef b \<in> set (obj_vals ob) \<Longrightarrow>
         b \<in> reach h v"

text \<open>The fields an update names, and the lists the record at \<open>key\<close> holds under them:
  the objects \<^verbatim>\<open>update_one\<close> may change.\<close>

definition op_fields_h :: "heap \<Rightarrow> string \<Rightarrow> hval \<Rightarrow> string set" where
  "op_fields_h h opname update =
     (case h_getitem h update opname of
        Inr arg \<Rightarrow> (case h_items h arg of Inr items \<Rightarrow> fst ` set items | Inl e \<Rightarrow> {})
      | Inl e \<Rightarrow> {})"

definition named_fields_h :: "heap \<Rightarrow> hval \<Rightarrow> string set" where
  "named_fields_h h update = op_fields_h h ''$push'' update \<union> op_fields_h h ''$pull'' update"

definition named_lists :: "hstore \<Rightarrow> heap \<Rightarrow> hval \<Rightarrow> hval \<Rightarrow> addr set" where
  "named_lists s h key update =
     (case store_lookup_h s key of
        None \<Rightarrow> {}
      | Some r \<Rightarrow> {a. \<exists>f \<in> named_fields_h h update. map_of r f = Some (HRef a)})"

text \<open>What holds of the record and the heap all through the two loops, against the
  record and the heap \<open>start\<close> they started from.\<close>

definition same_dicts :: "heap \<Rightarrow> heap \<Rightarrow> bool" where
  "same_dicts h0 h = (\<forall>b d. (h_obj h b = Some (HDict d)) = (h_obj h0 b = Some (HDict d)))"

definition frame_inv ::
  "string set \<Rightarrow> addr set \<Rightarrow> hrecord \<times> heap \<Rightarrow> hrecord \<times> heap \<Rightarrow> bool" where
  "frame_inv F L start rh =
     (length (snd start) \<le> length (snd rh) \<and>
      same_dicts (snd start) (snd rh) \<and>
      (\<forall>b<length (snd start). b \<notin> L \<longrightarrow> snd rh ! b = snd start ! b) \<and>
      (\<forall>g. g \<notin> F \<longrightarrow> map_of (fst rh) g = map_of (fst start) g) \<and>
      (\<forall>f a. f \<in> F \<longrightarrow> map_of (fst rh) f = Some (HRef a) \<longrightarrow> a < length (snd start) \<longrightarrow>
         a \<in> L))"

section \<open>Notions used in the statements\<close>

text \<open>
  A value as Python can build it: no dict holds a key twice. On such values \<^verbatim>\<open>==\<close> is
  reflexive.
\<close>

fun wf_val :: "pyval \<Rightarrow> bool"
  and wf_vals :: "pyval list \<Rightarrow> bool"
  and wf_items :: "(string \<times> pyval) list \<Rightarrow> bool"
where
  "wf_val (PList xs) = wf_vals xs"
| "wf_val (PDict d) = (distinct (map fst d) \<and> wf_items d)"
| "wf_val _ = True"
| "wf_vals [] = True"
| "wf_vals (x # xs) = (wf_val x \<and> wf_vals xs)"
| "wf_items [] = True"
| "wf_items ((k, v) # d) = (wf_val v \<and> wf_items d)"

text \<open>
  The path \<^verbatim>\<open>schedule_details.<name>\<close> is absent from a document: it has no
  \<^verbatim>\<open>schedule_details\<close>, or that is a nested record without the entry.
\<close>

definition path_absent :: "record_t \<Rightarrow> string \<Rightarrow> bool" where
  "path_absent doc name =
     (case map_of doc ''schedule_details'' of
        None \<Rightarrow> True
      | Some (PDict sd) \<Rightarrow> map_of sd name = None
      | Some _ \<Rightarrow> False)"

text \<open>
  The operator clauses on a path of \<^verbatim>\<open>schedule_details\<close> for which a missing value is
  below the bound or outside the list: \<^verbatim>\<open>$in\<close> with a list on \<^verbatim>\<open>days\<close>, \<^verbatim>\<open>$gte\<close> with a
  non-empty string on \<^verbatim>\<open>start_time\<close>.
\<close>

definition absent_fails :: "string \<Rightarrow> pyval \<Rightarrow> string \<Rightarrow> bool" where
  "absent_fails key condition name =
     (case condition of
        PDict c \<Rightarrow>
          (key = ''schedule_details.days'' \<and> name = ''days'' \<and>
             (case map_of c ''$in'' of Some (PList wanted) \<Rightarrow> True | _ \<Rightarrow> False)) \<or>
          (key = ''schedule_details.start_time'' \<and> name = ''start_time'' \<and>
             (case map_of c ''$gte'' of Some (PStr bound) \<Rightarrow> bound \<noteq> [] | _ \<Rightarrow> False))
      | _ \<Rightarrow> False)"



text \<open>A seed record of a teacher: a dict with a hashable \<^verbatim>\<open>username\<close> and no entry
  \<^verbatim>\<open>_id\<close>.\<close>

definition teacher_ok :: "pyval \<Rightarrow> bool" where
  "teacher_ok t = (case t of PDict items \<Rightarrow>
      map_of items ''_id'' = None \<and>
      (case map_of items ''username'' of Some u \<Rightarrow> hashable u | None \<Rightarrow> False)
    | _ \<Rightarrow> False)"

section \<open>Basic facts\<close>

lemma py_in_dict: "py_in (PStr k) (PDict d) = Inr (map_of d k \<noteq> None)"
proof -
  have "list_ex (\<lambda>(k', v). PStr k' = PStr k) d = (k \<in> fst ` set d)"
    by (induction d) auto
  then show ?thesis by (simp add: map_of_eq_None_iff)
qed

lemma filter_no_id: "map_of r ''_id'' = None \<Longrightarrow> filter (\<lambda>(k, v). k \<noteq> ''_id'') r = r"
  by (induction r) (auto split: if_splits)

lemma with_id_plain: "map_of r ''_id'' = None \<Longrightarrow> with_id key r = (''_id'', key) # r"
  by (simp add: with_id_def filter_no_id)

lemma store_set_same: "store_lookup s k = Some r \<Longrightarrow> store_set s k r = s"
  by (induction s) (auto split: if_splits)

lemma store_lookup_set:
  "store_lookup s k = Some r \<Longrightarrow> store_lookup (store_set s k r') k = Some r'"
  by (induction s) (auto split: if_splits)

section \<open>\<^verbatim>\<open>count_documents\<close>\<close>

text \<open>
  C3. For every store and every query argument, \<^verbatim>\<open>count_documents\<close> returns the number of
  records in the store; the query has no effect on the result.
\<close>

theorem count_documents_total:
  "count_documents s query = length s \<and> count_documents s query = count_documents s query'"
  by (simp add: count_documents_def)

section \<open>\<^verbatim>\<open>update_one\<close> without an identity\<close>

text \<open>
  C10. When \<^verbatim>\<open>"_id" in query\<close> is false, \<^verbatim>\<open>update_one\<close> raises nothing, returns the
  modified count 0 and leaves the store as it was, whatever the update argument is.
\<close>

theorem update_one_without_id:
  "py_in (PStr ''_id'') query = Inr False \<Longrightarrow>
     update_one s query update = (Inr \<lparr>modified_count = 0\<rparr>, s)"
  by (simp add: update_one_def)

theorem update_one_without_id_witness:
  "py_in (PStr ''_id'') (PDict [(''name'', PStr ''Chess Club'')]) = Inr False \<and>
   update_one [(PStr ''Chess Club'', [(''participants'', PList [])])]
     (PDict [(''name'', PStr ''Chess Club'')])
     (PDict [(''$push'', PDict [(''participants'', PStr ''a@x.edu'')])])
   = (Inr \<lparr>modified_count = 0\<rparr>, [(PStr ''Chess Club'', [(''participants'', PList [])])])"
proof -
  have h: "py_in (PStr ''_id'') (PDict [(''name'', PStr ''Chess Club'')]) = Inr False"
    by simp
  show ?thesis
    using h update_one_without_id [OF h] by simp
qed

section \<open>\<^verbatim>\<open>find\<close> with an empty query\<close>

text \<open>
  C5, as the code has it. For every store in which no record has a field of its own
  named \<^verbatim>\<open>_id\<close>, \<^verbatim>\<open>find\<close> with an absent or empty query returns one document per stored
  record, in the order of the store, each the record's fields behind the entry \<^verbatim>\<open>_id\<close>
  that holds the identity key.
\<close>

theorem find_all_tagged:
  assumes "\<forall>(key, r) \<in> set s. map_of r ''_id'' = None"
  shows "find_c s PNone = Inr (map (\<lambda>(key, r). (''_id'', key) # r) s) \<and>
         find_c s (PDict []) = Inr (map (\<lambda>(key, r). (''_id'', key) # r) s)"
proof -
  have "map (\<lambda>(key, r). with_id key r) s = map (\<lambda>(key, r). (''_id'', key) # r) s"
    using assms by (intro map_cong) (auto simp: with_id_plain)
  then show ?thesis by (simp add: find_c_def)
qed

theorem find_all_tagged_witness:
  "find_c [(PStr ''b'', [(''n'', PInt 2)]), (PStr ''a'', [(''n'', PInt 1)])] (PDict []) =
     Inr [[(''_id'', PStr ''b''), (''n'', PInt 2)], [(''_id'', PStr ''a''), (''n'', PInt 1)]]"
proof -
  have h: "\<forall>(key, r) \<in> set [(PStr ''b'', [(''n'', PInt 2)]), (PStr ''a'', [(''n'', PInt 1)])].
      map_of r ''_id'' = None" by simp
  from find_all_tagged [OF h] show ?thesis by simp
qed

text \<open>
  The claim as written, for every store, fails where a record has a field named
  \<^verbatim>\<open>_id\<close>: \<^verbatim>\<open>$push\<close> creates one, and the document \<^verbatim>\<open>find\<close> returns then carries that
  field's value under \<^verbatim>\<open>_id\<close>, not the identity key \<^verbatim>\<open>"a"\<close>.
\<close>

theorem find_all_counterexample:
  "update_one [(PStr ''a'', [])] (PDict [(''_id'', PStr ''a'')])
     (PDict [(''$push'', PDict [(''_id'', PStr ''x'')])])
     = (Inr \<lparr>modified_count = 1\<rparr>, [(PStr ''a'', [(''_id'', PList [PStr ''x''])])]) \<and>
   find_c [(PStr ''a'', [(''_id'', PList [PStr ''x''])])] (PDict [])
     = Inr [[(''_id'', PList [PStr ''x''])]]"
  by (simp add: update_one_def apply_update_def apply_op_def push_field_def find_c_def with_id_def)

section \<open>\<^verbatim>\<open>find_one\<close>\<close>

text \<open>
  C8, as the code has it. A query that holds a hashable identity value under \<^verbatim>\<open>_id\<close>
  gets the record stored at that key, behind the entry \<^verbatim>\<open>_id\<close> holding the key, when the
  key is present and the record has no field of its own named \<^verbatim>\<open>_id\<close>, and \<^verbatim>\<open>None\<close> when
  the key is absent; a query in which \<^verbatim>\<open>"_id" in query\<close> is false gets \<^verbatim>\<open>None\<close>, whatever
  the store holds.
\<close>

theorem find_one_by_id:
  "(map_of q ''_id'' = Some k \<and> hashable k \<and>
      (\<forall>r. store_lookup s k = Some r \<longrightarrow> map_of r ''_id'' = None) \<longrightarrow>
      find_one s (PDict q) =
        Inr (case store_lookup s k of None \<Rightarrow> None | Some r \<Rightarrow> Some ((''_id'', k) # r))) \<and>
   (py_in (PStr ''_id'') query = Inr False \<longrightarrow> find_one s query = Inr None)"
  by (auto simp: find_one_def py_in_dict with_id_plain simp del: py_in.simps
      split: option.splits)

theorem find_one_by_id_witness:
  "find_one [(PStr ''a'', [(''n'', PInt 1)])] (PDict [(''_id'', PStr ''a'')])
     = Inr (Some [(''_id'', PStr ''a''), (''n'', PInt 1)]) \<and>
   find_one [(PStr ''a'', [(''n'', PInt 1)])] (PDict [(''_id'', PStr ''b'')]) = Inr None \<and>
   find_one [(PStr ''a'', [(''n'', PInt 1)])] (PDict [(''n'', PInt 1)]) = Inr None"
  using find_one_by_id [of "[(''_id'', PStr ''a'')]" "PStr ''a''"
      "[(PStr ''a'', [(''n'', PInt 1)])]" "PDict [(''n'', PInt 1)]"]
    find_one_by_id [of "[(''_id'', PStr ''b'')]" "PStr ''b''"
      "[(PStr ''a'', [(''n'', PInt 1)])]" "PDict [(''n'', PInt 1)]"]
  by simp

text \<open>
  The claim as written fails for a record with a field named \<^verbatim>\<open>_id\<close>: the document
  returned for the key \<^verbatim>\<open>"a"\<close> holds that field's value under \<^verbatim>\<open>_id\<close>.
\<close>

theorem find_one_counterexample:
  "find_one [(PStr ''a'', [(''_id'', PList [PStr ''x''])])] (PDict [(''_id'', PStr ''a'')])
     = Inr (Some [(''_id'', PList [PStr ''x''])])"
  by (simp add: find_one_def with_id_def)

text \<open>An identity value that does not hash makes the lookup raise.\<close>

lemma find_one_unhashable: "find_one s (PDict [(''_id'', PList xs)]) = Inl TypeError"
  by (simp add: find_one_def)

section \<open>\<^verbatim>\<open>==\<close> on well-formed values\<close>

lemma py_eq_list_refl: "(\<And>x. x \<in> set xs \<Longrightarrow> py_eq x x) \<Longrightarrow> py_eq_list xs xs"
  by (induction xs) auto

lemma dict_has_member:
  "distinct (map fst b) \<Longrightarrow> (k, v) \<in> set b \<Longrightarrow> py_eq v v \<Longrightarrow> dict_has k v b"
  by (induction b) (auto simp: rev_image_eqI)

lemma dict_sub_subset:
  "distinct (map fst b) \<Longrightarrow> set a \<subseteq> set b \<Longrightarrow> \<forall>(k, v) \<in> set a. py_eq v v \<Longrightarrow> dict_sub a b"
  by (induction a) (auto simp: dict_has_member)

lemma wf_vals_iff: "wf_vals xs = (\<forall>x \<in> set xs. wf_val x)"
  by (induction xs) auto

lemma wf_items_iff: "wf_items d = (\<forall>(k, v) \<in> set d. wf_val v)"
  by (induction d) auto

lemma py_eq_refl: "wf_val v \<Longrightarrow> py_eq v v"
proof (induction v)
  case (PList xs)
  then show ?case by (auto simp: wf_vals_iff intro: py_eq_list_refl)
next
  case (PDict d)
  have "\<forall>(k, v) \<in> set d. py_eq v v"
    using PDict by (fastforce simp: wf_items_iff)
  then show ?case using PDict.prems by (auto intro!: dict_sub_subset)
qed auto

section \<open>\<^verbatim>\<open>$pull\<close> of a value that is not there\<close>

text \<open>
  C2. Let the store hold a record at the key \<^verbatim>\<open>k\<close>. When the field \<^verbatim>\<open>f\<close> is absent from
  that record, or is a list in which no element equals \<^verbatim>\<open>v\<close>, the call
  \<^verbatim>\<open>update_one({"_id": k}, {"$pull": {f: v}})\<close> leaves the store as it was and returns
  the modified count 1, with no exception.
\<close>

theorem pull_missing_noop:
  assumes "hashable k" and "store_lookup s k = Some r"
    and "map_of r f = None \<or> (\<exists>xs. map_of r f = Some (PList xs) \<and> \<not> list_ex (\<lambda>x. py_eq x v) xs)"
  shows "update_one s (PDict [(''_id'', k)]) (PDict [(''$pull'', PDict [(f, v)])])
           = (Inr \<lparr>modified_count = 1\<rparr>, s)"
proof -
  have "pull_field f v r = (None, r)"
    using assms(3) by (auto simp: pull_field_def)
  then have "apply_update (PDict [(''$pull'', PDict [(f, v)])]) r = (None, r)"
    by (simp add: apply_update_def apply_op_def)
  then show ?thesis
    using assms(1,2) by (simp add: update_one_def store_set_same)
qed

theorem pull_missing_noop_witness:
  "update_one [(PStr ''Chess Club'', [(''participants'', PList [PStr ''a@x.edu''])])]
     (PDict [(''_id'', PStr ''Chess Club'')])
     (PDict [(''$pull'', PDict [(''participants'', PStr ''b@x.edu'')])])
   = (Inr \<lparr>modified_count = 1\<rparr>,
      [(PStr ''Chess Club'', [(''participants'', PList [PStr ''a@x.edu''])])])"
proof -
  have a: "hashable (PStr ''Chess Club'')" by simp
  have b: "store_lookup [(PStr ''Chess Club'', [(''participants'', PList [PStr ''a@x.edu''])])]
      (PStr ''Chess Club'') = Some [(''participants'', PList [PStr ''a@x.edu''])]" by simp
  have c: "map_of [(''participants'', PList [PStr ''a@x.edu''])] ''participants'' = None \<or>
      (\<exists>xs. map_of [(''participants'', PList [PStr ''a@x.edu''])] ''participants''
         = Some (PList xs) \<and> \<not> list_ex (\<lambda>x. py_eq x (PStr ''b@x.edu'')) xs)" by simp
  show ?thesis by (rule pull_missing_noop [OF a b c])
qed

section \<open>\<^verbatim>\<open>$push\<close> onto an absent field, then \<^verbatim>\<open>$pull\<close>\<close>

text \<open>
  C7. Let the record at the key \<^verbatim>\<open>k\<close> have no field \<^verbatim>\<open>f\<close>. After
  \<^verbatim>\<open>update_one({"_id": k}, {"$push": {f: v}})\<close> the record holds the one-element list
  \<^verbatim>\<open>[v]\<close> under \<^verbatim>\<open>f\<close>; after the following \<^verbatim>\<open>update_one({"_id": k}, {"$pull": {f: v}})\<close>
  it holds the empty list. Both calls return the modified count 1.
\<close>

theorem push_then_pull:
  assumes "hashable k" and "store_lookup s k = Some r" and "map_of r f = None" and "wf_val v"
  shows "\<exists>s1 s2 r1 r2.
           update_one s (PDict [(''_id'', k)]) (PDict [(''$push'', PDict [(f, v)])])
             = (Inr \<lparr>modified_count = 1\<rparr>, s1) \<and>
           store_lookup s1 k = Some r1 \<and> map_of r1 f = Some (PList [v]) \<and>
           update_one s1 (PDict [(''_id'', k)]) (PDict [(''$pull'', PDict [(f, v)])])
             = (Inr \<lparr>modified_count = 1\<rparr>, s2) \<and>
           store_lookup s2 k = Some r2 \<and> map_of r2 f = Some (PList [])"
proof -
  define r1 where "r1 = AList.update f (PList [v]) (AList.update f (PList []) r)"
  define r2 where "r2 = AList.update f (PList []) r1"
  define s1 where "s1 = store_set s k r1"
  define s2 where "s2 = store_set s1 k r2"
  have f1: "map_of r1 f = Some (PList [v])" and f2: "map_of r2 f = Some (PList [])"
    by (simp_all add: r1_def r2_def AList.update_conv')
  have "push_field f v r = (None, r1)"
    using assms(3) by (simp add: push_field_def r1_def AList.update_conv')
  then have "apply_update (PDict [(''$push'', PDict [(f, v)])]) r = (None, r1)"
    by (simp add: apply_update_def apply_op_def)
  then have u1: "update_one s (PDict [(''_id'', k)]) (PDict [(''$push'', PDict [(f, v)])])
             = (Inr \<lparr>modified_count = 1\<rparr>, s1)"
    using assms(1,2) by (simp add: update_one_def s1_def)
  have l1: "store_lookup s1 k = Some r1"
    using assms(2) by (simp add: s1_def store_lookup_set)
  have "py_eq v v" using assms(4) by (rule py_eq_refl)
  then have "pull_field f v r1 = (None, r2)"
    using f1 by (simp add: pull_field_def r2_def)
  then have "apply_update (PDict [(''$pull'', PDict [(f, v)])]) r1 = (None, r2)"
    by (simp add: apply_update_def apply_op_def)
  then have u2: "update_one s1 (PDict [(''_id'', k)]) (PDict [(''$pull'', PDict [(f, v)])])
             = (Inr \<lparr>modified_count = 1\<rparr>, s2)"
    using assms(1) l1 by (simp add: update_one_def s2_def)
  have l2: "store_lookup s2 k = Some r2"
    using l1 by (simp add: s2_def store_lookup_set)
  show ?thesis using u1 l1 f1 u2 l2 f2 by blast
qed

theorem push_then_pull_witness:
  "\<exists>s1 s2 r1 r2.
     update_one [(PStr ''Chess Club'', [(''max_participants'', PInt 2)])]
       (PDict [(''_id'', PStr ''Chess Club'')])
       (PDict [(''$push'', PDict [(''participants'', PStr ''a@x.edu'')])])
       = (Inr \<lparr>modified_count = 1\<rparr>, s1) \<and>
     store_lookup s1 (PStr ''Chess Club'') = Some r1 \<and>
     map_of r1 ''participants'' = Some (PList [PStr ''a@x.edu'']) \<and>
     update_one s1 (PDict [(''_id'', PStr ''Chess Club'')])
       (PDict [(''$pull'', PDict [(''participants'', PStr ''a@x.edu'')])])
       = (Inr \<lparr>modified_count = 1\<rparr>, s2) \<and>
     store_lookup s2 (PStr ''Chess Club'') = Some r2 \<and>
     map_of r2 ''participants'' = Some (PList [])"
proof -
  have a: "hashable (PStr ''Chess Club'')" by simp
  have b: "store_lookup [(PStr ''Chess Club'', [(''max_participants'', PInt 2)])]
      (PStr ''Chess Club'') = Some [(''max_participants'', PInt 2)]" by simp
  have c: "map_of [(''max_participants'', PInt 2)] ''participants'' = None" by simp
  have d: "wf_val (PStr ''a@x.edu'')" by simp
  show ?thesis by (rule push_then_pull [OF a b c d])
qed

section \<open>What \<^verbatim>\<open>update_one\<close> leaves alone\<close>

lemma same_dicts_refl: "same_dicts h h"
  by (simp add: same_dicts_def)

lemma same_dicts_getitem: "same_dicts h0 h \<Longrightarrow> h_getitem h c k = h_getitem h0 c k"
proof (cases c)
  case (HRef a)
  assume sd: "same_dicts h0 h"
  show ?thesis
  proof (cases "\<exists>d. h_obj h0 a = Some (HDict d)")
    case True
    then obtain d where "h_obj h0 a = Some (HDict d)" by blast
    moreover from this sd have "h_obj h a = Some (HDict d)" by (simp add: same_dicts_def)
    ultimately show ?thesis using HRef by simp
  next
    case False
    moreover from False sd have "\<not> (\<exists>d. h_obj h a = Some (HDict d))"
      by (simp add: same_dicts_def)
    ultimately show ?thesis using HRef
      by (auto split: option.splits hobj.splits)
  qed
qed simp_all

lemma same_dicts_items: "same_dicts h0 h \<Longrightarrow> h_items h c = h_items h0 c"
proof (cases c)
  case (HRef a)
  assume sd: "same_dicts h0 h"
  show ?thesis
  proof (cases "\<exists>d. h_obj h0 a = Some (HDict d)")
    case True
    then obtain d where "h_obj h0 a = Some (HDict d)" by blast
    moreover from this sd have "h_obj h a = Some (HDict d)" by (simp add: same_dicts_def)
    ultimately show ?thesis using HRef by simp
  next
    case False
    moreover from False sd have "\<not> (\<exists>d. h_obj h a = Some (HDict d))"
      by (simp add: same_dicts_def)
    ultimately show ?thesis using HRef
      by (auto split: option.splits hobj.splits)
  qed
qed simp_all

lemma same_dicts_op_fields:
  assumes "same_dicts h0 h"
  shows "op_fields_h h opname update = op_fields_h h0 opname update"
  using same_dicts_getitem [OF assms] same_dicts_items [OF assms]
  by (simp add: op_fields_h_def split: sum.splits)

lemma same_dicts_append_list: "same_dicts h (h @ [HList xs])"
  by (auto simp: same_dicts_def h_obj_def nth_append)

lemma same_dicts_update_list:
  "h_obj h a = Some (HList xs) \<Longrightarrow> same_dicts h (h[a := HList ys])"
  by (auto simp: same_dicts_def h_obj_def nth_list_update split: if_splits)

lemma same_dicts_trans: "same_dicts h0 h1 \<Longrightarrow> same_dicts h1 h2 \<Longrightarrow> same_dicts h0 h2"
  by (simp add: same_dicts_def)

lemma frame_inv_refl:
  "\<forall>f a. f \<in> F \<longrightarrow> map_of r f = Some (HRef a) \<longrightarrow> a < length h \<longrightarrow> a \<in> L \<Longrightarrow>
     frame_inv F L (r, h) (r, h)"
  by (simp add: frame_inv_def same_dicts_refl)

lemma push_field_h_step:
  assumes "push_field_h f v (r, h) = (e, r', h')"
  shows "length h \<le> length h'"
    and "same_dicts h h'"
    and "\<forall>b<length h. map_of r f \<noteq> Some (HRef b) \<longrightarrow> h' ! b = h ! b"
    and "\<forall>g. g \<noteq> f \<longrightarrow> map_of r' g = map_of r g"
    and "\<forall>a. map_of r' f = Some (HRef a) \<longrightarrow> map_of r f = Some (HRef a) \<or> length h \<le> a"
proof -
  show "length h \<le> length h'"
    using assms
    by (auto simp: push_field_h_def AList.update_conv' split: if_splits option.splits
        hval.splits hobj.splits)
  show "\<forall>g. g \<noteq> f \<longrightarrow> map_of r' g = map_of r g"
    using assms
    by (auto simp: push_field_h_def AList.update_conv' split: if_splits option.splits
        hval.splits hobj.splits)
  show "\<forall>a. map_of r' f = Some (HRef a) \<longrightarrow> map_of r f = Some (HRef a) \<or> length h \<le> a"
    using assms
    by (auto simp: push_field_h_def AList.update_conv' split: if_splits option.splits
        hval.splits hobj.splits)
  show "\<forall>b<length h. map_of r f \<noteq> Some (HRef b) \<longrightarrow> h' ! b = h ! b"
    using assms
    by (auto simp: push_field_h_def AList.update_conv' nth_append nth_list_update
        split: if_splits option.splits hval.splits hobj.splits)
  show "same_dicts h h'"
  proof (cases "map_of r f = None")
    case True
    have 1: "same_dicts h (h @ [HList []])" by (rule same_dicts_append_list)
    have "h_obj (h @ [HList []]) (length h) = Some (HList [])"
      by (simp add: h_obj_def)
    then have "h' = (h @ [HList []])[length h := HList [v]]"
      using assms True by (simp add: push_field_h_def AList.update_conv')
    moreover have "same_dicts (h @ [HList []]) ((h @ [HList []])[length h := HList [v]])"
      by (rule same_dicts_update_list) (simp add: h_obj_def)
    ultimately show ?thesis using 1 same_dicts_trans by metis
  next
    case False
    then show ?thesis
      using assms
      by (auto simp: push_field_h_def same_dicts_refl same_dicts_update_list
          split: option.splits hval.splits hobj.splits)
  qed
qed

lemma pull_field_h_step:
  assumes "pull_field_h depth f v (r, h) = (e, r', h')"
  shows "length h' = length h"
    and "same_dicts h h'"
    and "\<forall>b<length h. map_of r f \<noteq> Some (HRef b) \<longrightarrow> h' ! b = h ! b"
    and "r' = r"
proof -
  show "length h' = length h" and "r' = r"
    using assms
    by (auto simp: pull_field_h_def split: option.splits sum.splits bool.splits
        hval.splits hobj.splits)
  show "\<forall>b<length h. map_of r f \<noteq> Some (HRef b) \<longrightarrow> h' ! b = h ! b"
    using assms
    by (auto simp: pull_field_h_def nth_list_update split: option.splits sum.splits
        bool.splits hval.splits hobj.splits)
  show "same_dicts h h'"
    using assms
    by (auto simp: pull_field_h_def same_dicts_refl same_dicts_update_list
        split: option.splits sum.splits bool.splits hval.splits hobj.splits)
qed

lemma frame_inv_push_field:
  assumes inv: "frame_inv F L start (r, h)" and f: "f \<in> F"
    and st: "push_field_h f v (r, h) = (e, r', h')"
  shows "frame_inv F L start (r', h')"
proof -
  note s = push_field_h_step [OF st]
  have keep: "\<forall>b<length (snd start). b \<notin> L \<longrightarrow> h' ! b = snd start ! b"
  proof (intro allI impI)
    fix b assume b: "b < length (snd start)" "b \<notin> L"
    then have "map_of r f \<noteq> Some (HRef b)"
      using inv f by (auto simp: frame_inv_def)
    moreover have "b < length h" using b inv by (simp add: frame_inv_def)
    ultimately have "h' ! b = h ! b" using s(3) by simp
    then show "h' ! b = snd start ! b" using b inv by (simp add: frame_inv_def)
  qed
  have named: "\<forall>f' a. f' \<in> F \<longrightarrow> map_of r' f' = Some (HRef a) \<longrightarrow> a < length (snd start) \<longrightarrow>
      a \<in> L"
  proof (intro allI impI)
    fix f' a assume a: "f' \<in> F" "map_of r' f' = Some (HRef a)" "a < length (snd start)"
    have len: "length (snd start) \<le> length h" using inv by (simp add: frame_inv_def)
    have "map_of r f' = Some (HRef a)"
    proof (cases "f' = f")
      case True
      then show ?thesis using s(5) a len by auto
    next
      case False
      then show ?thesis using s(4) a by simp
    qed
    then show "a \<in> L" using inv a by (auto simp: frame_inv_def)
  qed
  have "length (snd start) \<le> length h'"
    using inv s(1) by (simp add: frame_inv_def)
  moreover have "same_dicts (snd start) h'"
    using inv s(2) same_dicts_trans by (auto simp: frame_inv_def)
  moreover have "\<forall>g. g \<notin> F \<longrightarrow> map_of r' g = map_of (fst start) g"
    using inv s(4) f by (auto simp: frame_inv_def)
  ultimately show ?thesis using keep named by (simp add: frame_inv_def)
qed

lemma frame_inv_pull_field:
  assumes inv: "frame_inv F L start (r, h)" and f: "f \<in> F"
    and st: "pull_field_h depth f v (r, h) = (e, r', h')"
  shows "frame_inv F L start (r', h')"
proof -
  note s = pull_field_h_step [OF st]
  have keep: "\<forall>b<length (snd start). b \<notin> L \<longrightarrow> h' ! b = snd start ! b"
  proof (intro allI impI)
    fix b assume b: "b < length (snd start)" "b \<notin> L"
    then have "map_of r f \<noteq> Some (HRef b)"
      using inv f by (auto simp: frame_inv_def)
    moreover have "b < length h" using b inv by (simp add: frame_inv_def)
    ultimately have "h' ! b = h ! b" using s(3) by simp
    then show "h' ! b = snd start ! b" using b inv by (simp add: frame_inv_def)
  qed
  have "same_dicts (snd start) h'"
    using inv s(2) same_dicts_trans by (auto simp: frame_inv_def)
  then show ?thesis using inv s(1) s(4) keep by (simp add: frame_inv_def)
qed

lemma frame_inv_push_loop:
  "fst ` set items \<subseteq> F \<Longrightarrow> frame_inv F L start rh \<Longrightarrow>
     frame_inv F L start (snd (push_loop_h items rh))"
proof (induction items arbitrary: rh)
  case Nil
  then show ?case by simp
next
  case (Cons p items)
  obtain f v where p: "p = (f, v)" by (cases p)
  obtain r h where rh: "rh = (r, h)" by (cases rh)
  obtain e r' h' where st: "push_field_h f v (r, h) = (e, r', h')"
    by (cases "push_field_h f v (r, h)") auto
  have inv': "frame_inv F L start (r', h')"
    using frame_inv_push_field [OF _ _ st] Cons.prems p rh by auto
  show ?case
  proof (cases e)
    case None
    then show ?thesis using Cons.IH [OF _ inv'] Cons.prems(1) st p rh by simp
  next
    case (Some err)
    then show ?thesis using inv' st p rh by simp
  qed
qed

lemma frame_inv_pull_loop:
  "fst ` set items \<subseteq> F \<Longrightarrow> frame_inv F L start rh \<Longrightarrow>
     frame_inv F L start (snd (pull_loop_h depth items rh))"
proof (induction items arbitrary: rh)
  case Nil
  then show ?case by simp
next
  case (Cons p items)
  obtain f v where p: "p = (f, v)" by (cases p)
  obtain r h where rh: "rh = (r, h)" by (cases rh)
  obtain e r' h' where st: "pull_field_h depth f v (r, h) = (e, r', h')"
    by (cases "pull_field_h depth f v (r, h)") auto
  have inv': "frame_inv F L start (r', h')"
    using frame_inv_pull_field [OF _ _ st] Cons.prems p rh by auto
  show ?case
  proof (cases e)
    case None
    then show ?thesis using Cons.IH [OF _ inv'] Cons.prems(1) st p rh by simp
  next
    case (Some err)
    then show ?thesis using inv' st p rh by simp
  qed
qed

lemma frame_inv_apply_op:
  assumes loop: "\<And>items rh. fst ` set items \<subseteq> F \<Longrightarrow> frame_inv F L start rh \<Longrightarrow>
      frame_inv F L start (snd (loop items rh))"
    and inv: "frame_inv F L start rh"
    and sub: "op_fields_h (snd start) opname update \<subseteq> F"
  shows "frame_inv F L start (snd (apply_op_h depth opname loop update rh))"
proof -
  have sd: "same_dicts (snd start) (snd rh)" using inv by (simp add: frame_inv_def)
  have "op_fields_h (snd rh) opname update \<subseteq> F"
    using sub same_dicts_op_fields [OF sd] by simp
  then show ?thesis
    using inv loop
    by (auto simp: apply_op_h_def op_fields_h_def split: sum.splits bool.splits)
qed

lemma frame_inv_apply_update:
  assumes inv: "frame_inv (named_fields_h (snd start) update) L start rh"
  shows "frame_inv (named_fields_h (snd start) update) L start
           (snd (apply_update_h depth update rh))"
proof -
  let ?F = "named_fields_h (snd start) update"
  obtain e rh1 where a: "apply_op_h depth ''$push'' push_loop_h update rh = (e, rh1)"
    by (cases "apply_op_h depth ''$push'' push_loop_h update rh")
  have 1: "frame_inv ?F L start rh1"
    using frame_inv_apply_op [of ?F L start push_loop_h rh "''$push''" update depth]
      frame_inv_push_loop inv a
    by (simp add: named_fields_h_def)
  have 2: "frame_inv ?F L start (snd (apply_op_h depth ''$pull'' (pull_loop_h depth) update rh1))"
    using frame_inv_apply_op [of ?F L start "pull_loop_h depth" rh1 "''$pull''" update depth]
      frame_inv_pull_loop 1
    by (simp add: named_fields_h_def)
  show ?thesis
    using a 1 2 by (cases e) (simp_all add: apply_update_h_def)
qed

lemma store_set_h_frame:
  assumes "store_lookup_h s key = Some r"
    and "\<And>g. g \<notin> F \<Longrightarrow> map_of r' g = map_of r g"
  shows "length (store_set_h s key r') = length s \<and>
         (\<forall>i<length s. fst (store_set_h s key r' ! i) = fst (s ! i) \<and>
            (\<not> scalar_eq (fst (s ! i)) key \<longrightarrow> snd (store_set_h s key r' ! i) = snd (s ! i)) \<and>
            (\<forall>g. g \<notin> F \<longrightarrow>
               map_of (snd (store_set_h s key r' ! i)) g = map_of (snd (s ! i)) g))"
  using assms(1)
proof (induction s)
  case Nil
  then show ?case by simp
next
  case (Cons p s)
  obtain k0 r0 where p: "p = (k0, r0)" by (cases p)
  show ?case
  proof (cases "scalar_eq k0 key")
    case True
    then have "r0 = r" using Cons.prems p by simp
    then show ?thesis using True p assms(2) by (auto simp: nth_Cons split: nat.splits)
  next
    case False
    then have "store_lookup_h s key = Some r" using Cons.prems p by simp
    then show ?thesis using Cons.IH False p by (auto simp: nth_Cons split: nat.splits)
  qed
qed

lemma reach_child:
  assumes "a \<in> reach h v" and "h_obj h a = Some ob" and "x \<in> set (obj_vals ob)"
    and "c \<in> reach h x"
  shows "c \<in> reach h v"
  using assms(4)
proof (induction rule: reach.induct)
  case (root b)
  then show ?case using assms(1,2,3) reach.step by blast
next
  case (step b ob' c')
  then show ?case using reach.step by blast
qed

lemma observe_same:
  "\<forall>a \<in> reach h v. h_obj h' a = h_obj h a \<Longrightarrow> observe n h' v = observe n h v"
proof (induction n arbitrary: v)
  case 0
  then show ?case by (cases v) simp_all
next
  case (Suc n)
  show ?case
  proof (cases v)
    case (HRef a)
    then have a: "a \<in> reach h v" by (simp add: reach.root)
    then have eq: "h_obj h' a = h_obj h a" using Suc.prems by simp
    show ?thesis
    proof (cases "h_obj h a")
      case None
      then show ?thesis using eq HRef by simp
    next
      case (Some ob)
      have kids: "observe n h' x = observe n h x" if "x \<in> set (obj_vals ob)" for x
      proof (rule Suc.IH, rule ballI)
        fix c assume "c \<in> reach h x"
        then have "c \<in> reach h v" using reach_child [OF a Some that] by simp
        then show "h_obj h' c = h_obj h c" using Suc.prems by simp
      qed
      show ?thesis
      proof (cases ob)
        case (HList xs)
        then show ?thesis using kids eq Some HRef by simp
      next
        case (HDict d)
        have "map (\<lambda>(k, v). (k, observe n h' v)) d = map (\<lambda>(k, v). (k, observe n h v)) d"
          using kids HDict by (intro map_cong) (auto simp: rev_image_eqI)
        then show ?thesis using eq Some HRef HDict by simp
      qed
    qed
  qed simp_all
qed

text \<open>
  C9, as the code has it. After \<^verbatim>\<open>update_one({"_id": k}, update)\<close>, whether it returned or
  raised, the store has the same keys in the same places; every record whose key is not
  equal to \<^verbatim>\<open>k\<close> has each field bound to the value or object it was bound to, and so has
  in every record each field that the update names neither under \<^verbatim>\<open>$push\<close> nor under
  \<^verbatim>\<open>$pull\<close>; of the objects that were there before the call only the lists that the
  record at \<^verbatim>\<open>k\<close> holds under the named fields can have changed. So a value reads as
  before, at every depth, when none of those lists can be reached from it.
\<close>

theorem update_one_h_frame:
  assumes "h_obj h q = Some (HDict [(''_id'', key)])"
    and "update_one_h depth (s, h) (HRef q) update = (res, s', h')"
  shows "length s' = length s \<and> length h \<le> length h' \<and>
         (\<forall>a<length h. a \<notin> named_lists s h key update \<longrightarrow> h' ! a = h ! a) \<and>
         (\<forall>i<length s. fst (s' ! i) = fst (s ! i) \<and>
            (\<not> scalar_eq (fst (s ! i)) key \<longrightarrow> snd (s' ! i) = snd (s ! i)) \<and>
            (\<forall>g. g \<notin> named_fields_h h update \<longrightarrow>
               map_of (snd (s' ! i)) g = map_of (snd (s ! i)) g)) \<and>
         (\<forall>v. (\<forall>a \<in> reach h v. a < length h \<and> a \<notin> named_lists s h key update) \<longrightarrow>
            (\<forall>n. observe n h' v = observe n h v))"
proof -
  let ?L = "named_lists s h key update"
  let ?F = "named_fields_h h update"
  have q1: "h_in depth h (HStr ''_id'') (HRef q) = Inr True"
    using assms(1) by (simp add: h_in_def)
  have q2: "h_getitem h (HRef q) ''_id'' = Inr key"
    using assms(1) by simp
  have core: "length s' = length s \<and> length h \<le> length h' \<and>
         (\<forall>a<length h. a \<notin> ?L \<longrightarrow> h' ! a = h ! a) \<and>
         (\<forall>i<length s. fst (s' ! i) = fst (s ! i) \<and>
            (\<not> scalar_eq (fst (s ! i)) key \<longrightarrow> snd (s' ! i) = snd (s ! i)) \<and>
            (\<forall>g. g \<notin> ?F \<longrightarrow> map_of (snd (s' ! i)) g = map_of (snd (s ! i)) g))"
  proof (cases "h_hashable key \<and> store_lookup_h s key \<noteq> None")
    case False
    then have "s' = s \<and> h' = h"
      using assms(2) q1 q2 by (auto simp: update_one_h_def split: if_splits)
    then show ?thesis by simp
  next
    case True
    then obtain r where r: "store_lookup_h s key = Some r" by auto
    obtain e r1 h1 where u: "apply_update_h depth update (r, h) = (e, r1, h1)"
      by (cases "apply_update_h depth update (r, h)") auto
    have res: "s' = store_set_h s key r1 \<and> h' = h1"
      using assms(2) q1 q2 True r u by (cases e) (simp_all add: update_one_h_def)
    have L: "?L = {a. \<exists>f \<in> ?F. map_of r f = Some (HRef a)}"
      using r by (simp add: named_lists_def)
    have "frame_inv ?F ?L (r, h) (r, h)"
      by (rule frame_inv_refl) (auto simp: L)
    from frame_inv_apply_update
      [where start = "(r, h)" and rh = "(r, h)" and L = ?L and update = update
         and depth = depth] this u
    have inv: "frame_inv ?F ?L (r, h) (r1, h1)" by simp
    then have "\<And>g. g \<notin> ?F \<Longrightarrow> map_of r1 g = map_of r g"
      by (simp add: frame_inv_def)
    from store_set_h_frame [OF r this] inv res show ?thesis
      by (simp add: frame_inv_def)
  qed
  have obs: "\<forall>v. (\<forall>a \<in> reach h v. a < length h \<and> a \<notin> ?L) \<longrightarrow>
      (\<forall>n. observe n h' v = observe n h v)"
  proof (intro allI impI)
    fix v n assume d: "\<forall>a \<in> reach h v. a < length h \<and> a \<notin> ?L"
    have "\<forall>a \<in> reach h v. h_obj h' a = h_obj h a"
    proof
      fix a assume "a \<in> reach h v"
      then have "a < length h" "a \<notin> ?L" using d by auto
      then show "h_obj h' a = h_obj h a" using core by (simp add: h_obj_def)
    qed
    then show "observe n h' v = observe n h v" by (rule observe_same)
  qed
  from core obs show ?thesis by simp
qed

lemma reach_leaf: "h_obj h a = Some (HList []) \<Longrightarrow> reach h (HRef a) = {a}"
proof
  assume l: "h_obj h a = Some (HList [])"
  show "reach h (HRef a) \<subseteq> {a}"
  proof
    fix b assume "b \<in> reach h (HRef a)"
    then show "b \<in> {a}"
      by (induction rule: reach.induct) (use l in auto)
  qed
  show "{a} \<subseteq> reach h (HRef a)" by (simp add: reach.root)
qed

theorem update_one_h_frame_witness:
  "length (fst (snd (update_one_h 10
       ([(HStr ''a'', [(''p'', HRef 0)]), (HStr ''b'', [(''p'', HRef 1)])],
        [HList [], HList [], HDict [(''_id'', HStr ''a'')], HDict [(''p'', HStr ''x'')],
         HDict [(''$push'', HRef 3)]])
       (HRef 2) (HRef 4)))) = 2 \<and>
   snd (fst (snd (update_one_h 10
       ([(HStr ''a'', [(''p'', HRef 0)]), (HStr ''b'', [(''p'', HRef 1)])],
        [HList [], HList [], HDict [(''_id'', HStr ''a'')], HDict [(''p'', HStr ''x'')],
         HDict [(''$push'', HRef 3)]])
       (HRef 2) (HRef 4))) ! 1) = [(''p'', HRef 1)] \<and>
   observe 1 (snd (snd (update_one_h 10
       ([(HStr ''a'', [(''p'', HRef 0)]), (HStr ''b'', [(''p'', HRef 1)])],
        [HList [], HList [], HDict [(''_id'', HStr ''a'')], HDict [(''p'', HStr ''x'')],
         HDict [(''$push'', HRef 3)]])
       (HRef 2) (HRef 4)))) (HRef 1) = PList []"
proof -
  let ?s = "[(HStr ''a'', [(''p'', HRef 0)]), (HStr ''b'', [(''p'', HRef 1)])]"
  let ?h = "[HList [], HList [], HDict [(''_id'', HStr ''a'')], HDict [(''p'', HStr ''x'')],
         HDict [(''$push'', HRef 3)]]"
  let ?U = "update_one_h 10 (?s, ?h) (HRef 2) (HRef 4)"
  have q: "h_obj ?h 2 = Some (HDict [(''_id'', HStr ''a'')])"
    by (simp add: h_obj_def)
  have u: "?U = (fst ?U, fst (snd ?U), snd (snd ?U))" by simp
  note fr = update_one_h_frame [OF q u]
  have L: "named_lists ?s ?h (HStr ''a'') (HRef 4) = {0}"
    by (auto simp: named_lists_def named_fields_h_def op_fields_h_def h_obj_def)
  have r: "reach ?h (HRef 1) = {1}"
    by (rule reach_leaf) (simp add: h_obj_def)
  have len: "length (fst (snd ?U)) = 2" using fr by simp
  have "\<not> scalar_eq (fst (?s ! 1)) (HStr ''a'') \<longrightarrow> snd (fst (snd ?U) ! 1) = snd (?s ! 1)"
    using fr by (metis One_nat_def length_Cons lessI list.size(3))
  then have one: "snd (fst (snd ?U) ! 1) = [(''p'', HRef 1)]" by simp
  have "\<forall>a \<in> reach ?h (HRef 1). a < length ?h \<and> a \<notin> named_lists ?s ?h (HStr ''a'') (HRef 4)"
    unfolding r L by simp
  then have "observe 1 (snd (snd ?U)) (HRef 1) = observe 1 ?h (HRef 1)"
    using fr by blast
  then have obs: "observe 1 (snd (snd ?U)) (HRef 1) = PList []"
    by (simp add: h_obj_def)
  from len one obs show ?thesis by simp
qed

text \<open>
  The claim as written, every other record unchanged, fails where a list is shared:
  \<^verbatim>\<open>insert_one\<close> stores the caller's list \<^verbatim>\<open>L\<close> under \<^verbatim>\<open>"a"\<close> and under \<^verbatim>\<open>"b"\<close>, the
  \<^verbatim>\<open>$push\<close> on \<^verbatim>\<open>"a"\<close> appends to \<^verbatim>\<open>L\<close>, and the field \<^verbatim>\<open>p\<close> of record \<^verbatim>\<open>"b"\<close>, which
  read \<^verbatim>\<open>[]\<close>, reads \<^verbatim>\<open>["x"]\<close>.
\<close>

theorem update_one_shared_counterexample:
  "insert_one_h
     [HList [], HDict [(''_id'', HStr ''a''), (''p'', HRef 0)],
      HDict [(''_id'', HStr ''b''), (''p'', HRef 0)], HDict [(''_id'', HStr ''a'')],
      HDict [(''p'', HStr ''x'')], HDict [(''$push'', HRef 4)]]
     [] (HRef 1)
     = Inr [(HStr ''a'', [(''p'', HRef 0)])] \<and>
   insert_one_h
     [HList [], HDict [(''_id'', HStr ''a''), (''p'', HRef 0)],
      HDict [(''_id'', HStr ''b''), (''p'', HRef 0)], HDict [(''_id'', HStr ''a'')],
      HDict [(''p'', HStr ''x'')], HDict [(''$push'', HRef 4)]]
     [(HStr ''a'', [(''p'', HRef 0)])] (HRef 2)
     = Inr [(HStr ''a'', [(''p'', HRef 0)]), (HStr ''b'', [(''p'', HRef 0)])] \<and>
   update_one_h 10
     ([(HStr ''a'', [(''p'', HRef 0)]), (HStr ''b'', [(''p'', HRef 0)])],
      [HList [], HDict [(''_id'', HStr ''a''), (''p'', HRef 0)],
       HDict [(''_id'', HStr ''b''), (''p'', HRef 0)], HDict [(''_id'', HStr ''a'')],
       HDict [(''p'', HStr ''x'')], HDict [(''$push'', HRef 4)]])
     (HRef 3) (HRef 5)
     = (Inr \<lparr>modified_count = 1\<rparr>,
        [(HStr ''a'', [(''p'', HRef 0)]), (HStr ''b'', [(''p'', HRef 0)])],
        [HList [HStr ''x''], HDict [(''_id'', HStr ''a''), (''p'', HRef 0)],
         HDict [(''_id'', HStr ''b''), (''p'', HRef 0)], HDict [(''_id'', HStr ''a'')],
         HDict [(''p'', HStr ''x'')], HDict [(''$push'', HRef 4)]]) \<and>
   observe 1
     [HList [], HDict [(''_id'', HStr ''a''), (''p'', HRef 0)],
      HDict [(''_id'', HStr ''b''), (''p'', HRef 0)], HDict [(''_id'', HStr ''a'')],
      HDict [(''p'', HStr ''x'')], HDict [(''$push'', HRef 4)]]
     (HRef 0) = PList [] \<and>
   observe 1
     [HList [HStr ''x''], HDict [(''_id'', HStr ''a''), (''p'', HRef 0)],
      HDict [(''_id'', HStr ''b''), (''p'', HRef 0)], HDict [(''_id'', HStr ''a'')],
      HDict [(''p'', HStr ''x'')], HDict [(''$push'', HRef 4)]]
     (HRef 0) = PList [PStr ''x'']"
  by (simp add: insert_one_h_def update_one_h_def apply_update_h_def apply_op_h_def
      push_field_h_def h_in_def h_obj_def)

section \<open>Queries on an absent path\<close>

lemma py_any_in_empty: "py_any_in days (PList []) = Inr False"
  by (induction days) auto

lemma map_of_with_id: "f \<noteq> ''_id'' \<Longrightarrow> map_of (with_id key r) f = map_of r f"
  by (induction r) (auto simp: with_id_def)

lemma path_absent_with_id: "path_absent (with_id key r) name = path_absent r name"
  by (simp add: path_absent_def map_of_with_id)

lemma match_clause_absent:
  assumes "absent_fails key condition name" and "path_absent doc name"
  shows "match_clause doc key condition = Inr False"
proof -
  obtain c where c: "condition = PDict c"
    using assms(1) by (cases condition) (auto simp: absent_fails_def)
  consider (days) wanted where "key = ''schedule_details.days''" "name = ''days''"
      "map_of c ''$in'' = Some (PList wanted)"
    | (start) bound where "key = ''schedule_details.start_time''" "name = ''start_time''"
      "map_of c ''$gte'' = Some (PStr bound)" "bound \<noteq> []"
    using assms(1) c by (auto simp: absent_fails_def split: option.splits pyval.splits)
  then show ?thesis
  proof cases
    case days
    then show ?thesis
      using assms(2) c
      by (auto simp: match_clause_def py_in_dict path_absent_def py_any_in_empty
          simp del: py_in.simps split: option.splits pyval.splits)
  next
    case start
    then obtain x xs where "bound = x # xs" by (cases bound) auto
    then show ?thesis
      using assms(2) c start
      by (auto simp: match_clause_def py_in_dict path_absent_def
          simp del: py_in.simps split: option.splits pyval.splits)
  qed
qed

lemma matches_clauses_all:
  "matches_clauses doc q = Inr True \<Longrightarrow> (key, condition) \<in> set q \<Longrightarrow>
     match_clause doc key condition = Inr True"
  by (induction q) (auto split: sum.splits bool.splits if_splits)

lemma find_loop_hits:
  "find_loop s query = Inr rs \<Longrightarrow> d \<in> set rs \<Longrightarrow> matches_query d query = Inr True"
  by (induction s arbitrary: rs) (auto split: sum.splits if_splits)

lemma find_loop_none:
  "\<forall>(key, r) \<in> set s. matches_query (with_id key r) query = Inr False \<Longrightarrow>
     find_loop s query = Inr []"
  by (induction s) auto

text \<open>
  C1, as the code has it. Let a query hold a clause \<^verbatim>\<open>$in\<close> with a list on
  \<^verbatim>\<open>schedule_details.days\<close>, or a clause \<^verbatim>\<open>$gte\<close> with a non-empty string on
  \<^verbatim>\<open>schedule_details.start_time\<close>. On a record from which that path is absent the clause
  evaluates to a non-match and raises nothing; no such record is among the documents
  \<^verbatim>\<open>find\<close> returns for the query; and over a store of such records \<^verbatim>\<open>find\<close> with the
  clause alone returns the empty list.
\<close>

theorem find_absent_path:
  assumes "absent_fails key condition name" and "(key, condition) \<in> set q"
  shows "(path_absent r name \<longrightarrow>
            matches_query (with_id k r) (PDict [(key, condition)]) = Inr False) \<and>
         (find_c s (PDict q) = Inr rs \<longrightarrow>
            (\<forall>(k', r') \<in> set s. path_absent r' name \<longrightarrow> with_id k' r' \<notin> set rs)) \<and>
         ((\<forall>(k', r') \<in> set s. path_absent r' name) \<longrightarrow>
            find_c s (PDict [(key, condition)]) = Inr [])"
proof (intro conjI impI)
  assume "path_absent r name"
  then show "matches_query (with_id k r) (PDict [(key, condition)]) = Inr False"
    using match_clause_absent [OF assms(1), of "with_id k r"]
    by (simp add: matches_query_def path_absent_with_id)
next
  assume f: "find_c s (PDict q) = Inr rs"
  have "q \<noteq> []" using assms(2) by auto
  then have fl: "find_loop s (PDict q) = Inr rs"
    using f by (simp add: find_c_def)
  show "\<forall>(k', r') \<in> set s. path_absent r' name \<longrightarrow> with_id k' r' \<notin> set rs"
  proof (clarify)
    fix k' r'
    assume ab: "path_absent r' name" and "with_id k' r' \<in> set rs"
    then have "matches_query (with_id k' r') (PDict q) = Inr True"
      using find_loop_hits [OF fl] by simp
    then have "match_clause (with_id k' r') key condition = Inr True"
      using matches_clauses_all assms(2) by (simp add: matches_query_def)
    moreover have "match_clause (with_id k' r') key condition = Inr False"
      using match_clause_absent [OF assms(1)] ab by (simp add: path_absent_with_id)
    ultimately show False by simp
  qed
next
  assume all: "\<forall>(k', r') \<in> set s. path_absent r' name"
  have "\<forall>(k', r') \<in> set s.
      matches_query (with_id k' r') (PDict [(key, condition)]) = Inr False"
    using all match_clause_absent [OF assms(1)]
    by (auto simp: matches_query_def path_absent_with_id)
  then show "find_c s (PDict [(key, condition)]) = Inr []"
    by (simp add: find_c_def find_loop_none)
qed

theorem find_absent_path_witness:
  "matches_query (with_id (PStr ''Chess Club'') [(''max_participants'', PInt 12)])
     (PDict [(''schedule_details.days'', PDict [(''$in'', PList [PStr ''Monday''])])])
     = Inr False \<and>
   find_c [(PStr ''Chess Club'', [(''max_participants'', PInt 12)])]
     (PDict [(''schedule_details.days'', PDict [(''$in'', PList [PStr ''Monday''])])])
     = Inr []"
proof -
  have a: "absent_fails ''schedule_details.days'' (PDict [(''$in'', PList [PStr ''Monday''])])
      ''days''"
    by (simp add: absent_fails_def)
  have b: "(''schedule_details.days'', PDict [(''$in'', PList [PStr ''Monday''])])
      \<in> set [(''schedule_details.days'', PDict [(''$in'', PList [PStr ''Monday''])])]"
    by simp
  have c: "path_absent [(''max_participants'', PInt 12)] ''days''"
    by (simp add: path_absent_def)
  from find_absent_path [OF a b, of "[(''max_participants'', PInt 12)]" "PStr ''Chess Club''"
      "[(PStr ''Chess Club'', [(''max_participants'', PInt 12)])]"] c
  show ?thesis by simp
qed

text \<open>
  The claim as written also covers \<^verbatim>\<open>$lte\<close> on \<^verbatim>\<open>schedule_details.end_time\<close> and every
  bound of \<^verbatim>\<open>$gte\<close>. A record without \<^verbatim>\<open>end_time\<close> is returned for the bound
  \<^verbatim>\<open>"17:00"\<close>, and a record without \<^verbatim>\<open>start_time\<close> for the bound \<^verbatim>\<open>""\<close>: the missing
  time is read as the empty string, which is above no bound and not below the empty one.
\<close>

theorem find_absent_path_counterexample:
  "find_c
     [(PStr ''Chess Club'',
       [(''schedule_details'', PDict [(''days'', PList [PStr ''Monday''])])])]
     (PDict [(''schedule_details.end_time'', PDict [(''$lte'', PStr ''17:00'')])])
   = Inr [[(''_id'', PStr ''Chess Club''),
           (''schedule_details'', PDict [(''days'', PList [PStr ''Monday''])])]] \<and>
   find_c
     [(PStr ''Chess Club'',
       [(''schedule_details'', PDict [(''days'', PList [PStr ''Monday''])])])]
     (PDict [(''schedule_details.start_time'', PDict [(''$gte'', PStr [])])])
   = Inr [[(''_id'', PStr ''Chess Club''),
           (''schedule_details'', PDict [(''days'', PList [PStr ''Monday''])])]]"
  by (simp add: find_c_def matches_query_def match_clause_def with_id_def py_gt_def)

text \<open>What the \<^verbatim>\<open>$lte\<close> clause does on an absent \<^verbatim>\<open>end_time\<close>, for every string bound.\<close>

lemma lte_absent_passes:
  "path_absent doc ''end_time'' \<Longrightarrow>
     match_clause doc ''schedule_details.end_time'' (PDict [(''$lte'', PStr bound)]) = Inr True"
  by (auto simp: match_clause_def path_absent_def py_gt_def split: option.splits pyval.splits)

text \<open>A bound that is not a string cannot be compared with the missing time.\<close>

lemma gte_number_raises:
  "path_absent doc ''start_time'' \<Longrightarrow>
     match_clause doc ''schedule_details.start_time'' (PDict [(''$gte'', PInt n)])
       = Inl TypeError"
  by (auto simp: match_clause_def path_absent_def split: option.splits pyval.splits)

section \<open>\<^verbatim>\<open>aggregate\<close>\<close>













section \<open>Seeding twice\<close>

lemma store_set_nonempty: "store_set s k r \<noteq> []"
  by (cases s) (auto split: if_splits)

lemma insert_one_with_id:
  "map_of d ''_id'' = None \<Longrightarrow> hashable k \<Longrightarrow>
     insert_one s (PDict (with_id k d)) = Inr (store_set s k d)"
  by (simp add: insert_one_def with_id_def filter_no_id)

lemma insert_activities_ok:
  "\<forall>(name, details) \<in> set acts. map_of details ''_id'' = None \<Longrightarrow>
     \<exists>s'. insert_activities s acts = Inr s' \<and> (acts \<noteq> [] \<longrightarrow> s' \<noteq> []) \<and> (s \<noteq> [] \<longrightarrow> s' \<noteq> [])"
proof (induction acts arbitrary: s)
  case Nil
  then show ?case by simp
next
  case (Cons a acts)
  obtain name details where a: "a = (name, details)" by (cases a)
  have d: "map_of details ''_id'' = None" and rest: "\<forall>(name, details) \<in> set acts. map_of details ''_id'' = None"
    using Cons.prems a by auto
  from Cons.IH [OF rest, of "store_set s (PStr name) details"] obtain s' where
    "insert_activities (store_set s (PStr name) details) acts = Inr s'"
    "store_set s (PStr name) details \<noteq> [] \<longrightarrow> s' \<noteq> []" by blast
  then show ?case
    using a d by (simp add: insert_one_with_id store_set_nonempty)
qed


lemma insert_teachers_ok:
  "list_all teacher_ok ts \<Longrightarrow>
     \<exists>s'. insert_teachers s ts = Inr s' \<and> (ts \<noteq> [] \<longrightarrow> s' \<noteq> []) \<and> (s \<noteq> [] \<longrightarrow> s' \<noteq> [])"
proof (induction ts arbitrary: s)
  case Nil
  then show ?case by simp
next
  case (Cons t ts)
  then obtain items u where t: "t = PDict items" "map_of items ''_id'' = None"
      "map_of items ''username'' = Some u" "hashable u"
    by (auto simp: teacher_ok_def split: pyval.splits option.splits)
  have rest: "list_all teacher_ok ts" using Cons.prems by simp
  from Cons.IH [OF rest, of "store_set s u items"] obtain s' where
    "insert_teachers (store_set s u items) ts = Inr s'"
    "store_set s u items \<noteq> [] \<longrightarrow> s' \<noteq> []" by blast
  then show ?case
    using t by (simp add: insert_one_with_id store_set_nonempty)
qed

lemma initial_activities_no_id:
  "\<forall>(name, details) \<in> set initial_activities. map_of details ''_id'' = None"
  by (simp add: initial_activities_def)

lemma initial_teachers_ok: "list_all teacher_ok (initial_teachers hp)"
  by (simp add: initial_teachers_def teacher_ok_def)

lemma initial_nonempty: "initial_activities \<noteq> [] \<and> initial_teachers hp \<noteq> []"
  by (simp add: initial_activities_def initial_teachers_def)

text \<open>
  C4. From any state of the two stores \<^verbatim>\<open>init_database\<close> returns, and a second call
  right after it returns the same state: each store has as many records after the
  second call as after the first.
\<close>

theorem init_database_idempotent:
  "\<exists>st1 st2. init_database hash_password st = Inr st1 \<and>
      init_database hash_password st1 = Inr st2 \<and>
      count_documents (activities_db st2) q = count_documents (activities_db st1) q \<and>
      count_documents (teachers_db st2) q = count_documents (teachers_db st1) q \<and>
      st2 = st1"
proof -
  have "\<exists>a. (if count_documents (activities_db st) (PDict []) = 0
            then insert_activities (activities_db st) initial_activities
            else Inr (activities_db st)) = Inr a \<and> a \<noteq> []"
  proof (cases "activities_db st = []")
    case True
    from insert_activities_ok [OF initial_activities_no_id, of "[]"] initial_nonempty
    obtain s' where "insert_activities [] initial_activities = Inr s'" "s' \<noteq> []"
      by blast
    then show ?thesis using True by (simp add: count_documents_def)
  next
    case False
    then show ?thesis by (simp add: count_documents_def)
  qed
  then obtain a where a: "(if count_documents (activities_db st) (PDict []) = 0
            then insert_activities (activities_db st) initial_activities
            else Inr (activities_db st)) = Inr a" "a \<noteq> []"
    by blast
  have "\<exists>t. (if count_documents (teachers_db st) (PDict []) = 0
            then insert_teachers (teachers_db st) (initial_teachers hash_password)
            else Inr (teachers_db st)) = Inr t \<and> t \<noteq> []"
  proof (cases "teachers_db st = []")
    case True
    from insert_teachers_ok [OF initial_teachers_ok [of hash_password], of "[]"]
      initial_nonempty [of hash_password]
    obtain s' where "insert_teachers [] (initial_teachers hash_password) = Inr s'" "s' \<noteq> []"
      by blast
    then show ?thesis using True by (simp add: count_documents_def)
  next
    case False
    then show ?thesis by (simp add: count_documents_def)
  qed
  then obtain t where t: "(if count_documents (teachers_db st) (PDict []) = 0
            then insert_teachers (teachers_db st) (initial_teachers hash_password)
            else Inr (teachers_db st)) = Inr t" "t \<noteq> []"
    by blast
  have 1: "init_database hash_password st = Inr \<lparr>activities_db = a, teachers_db = t\<rparr>"
    using a(1) t(1) by (simp add: init_database_def)
  have 2: "init_database hash_password \<lparr>activities_db = a, teachers_db = t\<rparr>
      = Inr \<lparr>activities_db = a, teachers_db = t\<rparr>"
    using a(2) t(2) by (simp add: init_database_def count_documents_def)
  show ?thesis using 1 2 by simp
qed

text \<open>From two empty stores the seeds give 13 activities and 3 teachers.\<close>

lemma init_database_from_empty:
  "\<exists>st1. init_database hp \<lparr>activities_db = [], teachers_db = []\<rparr> = Inr st1 \<and>
     count_documents (activities_db st1) q = 13 \<and> count_documents (teachers_db st1) q = 3"
  by (simp add: init_database_def count_documents_def initial_activities_def
      initial_teachers_def insert_one_def with_id_def)

end
